theory Spec2Isabelle
  imports Complex_Main
begin

section \<open>A discrete-latent variational autoencoder: \<^verbatim>\<open>BrainSimulator/models/vae.py\<close>\<close>

text \<open>
  The class \<^verbatim>\<open>VariationalAutoEncoder\<close> is embedded as a record of its attributes,
  its constructor as the function \<open>init\<close>, and its methods as functions that take the
  object and return a result together with the object as the call leaves it.

  Conventions of the embedding:
  \<^item> Python integers are \<open>int\<close>; tensor sizes are read as \<open>int\<close> as well, as
    \<^verbatim>\<open>x.shape\<close> gives them.
  \<^item> Tensor entries are real numbers: the arithmetic of the model is the exact
    arithmetic that the floating-point operations of the code approximate. The true
    division and \<^verbatim>\<open>np.ceil\<close> of the constructor are computed in doubles by the
    code, and \<open>init\<close> computes them exactly: an integer up to \<open>2 ^ 53\<close> is a
    double, its quotient by 64 is exact, and so are the ceiling and the product, so
    that \<open>init\<close> is the constructor on image sizes up to \<open>2 ^ 53\<close>. Above that
    the quotient of the code is rounded (and from about \<open>2 ^ 1030\<close> the constructor
    raises \<^verbatim>\<open>OverflowError\<close>); the theorems about the padded sizes and the signs
    of the pad amounts therefore take \<open>h \<le> 2 ^ 53\<close> and \<open>w \<le> 2 ^ 53\<close> as
    hypotheses.
  \<^item> A tensor of rank 4 is a list (batch) of lists (channels) of lists (rows) of lists
    (columns); a tensor of rank 2 is a list of rows. An axis of size 0 leaves the sizes
    of the axes inside it unrecorded; the statements about shapes below are about
    positive sizes of the image. A tensor is its value: how it lies in memory is not
    part of the model.
  \<^item> An exception is the value \<open>Inl\<close> of a sum; a call that can raise and can change
    state has the type \<open>'s \<Rightarrow> (error + 'a) \<times> 's\<close>.
  \<^item> The blocks \<^verbatim>\<open>CNNLayer\<close>, \<^verbatim>\<open>DeCNNLayer\<close>, \<^verbatim>\<open>MLP\<close> and
    \<^verbatim>\<open>STMNsampler\<close> are imported by the file and defined elsewhere: they are
    parameters of the model (the record \<open>blocks\<close>). What they read and write (their
    weights and buffers, the random generator) is the abstract state \<open>'w\<close>.
\<close>

subsection \<open>Exceptions and calls\<close>

datatype error = RuntimeError

type_synonym ('s, 'a) call = "'s \<Rightarrow> (error + 'a) \<times> 's"

definition returns :: "'a \<Rightarrow> ('s, 'a) call" where
  "returns a s = (Inr a, s)"

definition of_result :: "error + 'a \<Rightarrow> ('s, 'a) call" where
  "of_result r s = (r, s)"

definition and_then :: "('s, 'a) call \<Rightarrow> ('a \<Rightarrow> ('s, 'b) call) \<Rightarrow> ('s, 'b) call" where
  "and_then f g s = (case f s of (Inl e, s') \<Rightarrow> (Inl e, s') | (Inr a, s') \<Rightarrow> g a s')"

subsection \<open>Tensors and their shapes\<close>

type_synonym tensor2 = "real list list"

type_synonym tensor4 = "real list list list list"

definition shape2 :: "tensor2 \<Rightarrow> int \<Rightarrow> int \<Rightarrow> bool" where
  "shape2 x r c = (int (length x) = r \<and> list_all (\<lambda>row. int (length row) = c) x)"

definition shape4 :: "tensor4 \<Rightarrow> int \<Rightarrow> int \<Rightarrow> int \<Rightarrow> int \<Rightarrow> bool" where
  "shape4 x b c h w =
     (int (length x) = b \<and>
      list_all (\<lambda>xc. int (length xc) = c \<and>
        list_all (\<lambda>img. int (length img) = h \<and>
          list_all (\<lambda>row. int (length row) = w) img) xc) x)"

text \<open>The size of the last axis of an image (a list of rows), read off its first row.\<close>

definition width :: "'a list list \<Rightarrow> int" where
  "width img = (case img of [] \<Rightarrow> 0 | row # _ \<Rightarrow> int (length row))"

subsection \<open>The operations of the tensor library that the file calls\<close>

text \<open>
  \<^verbatim>\<open>F.pad(x, (left, right, top, bottom), mode='constant', value=v)\<close> pads the last
  axis by \<open>left\<close> and \<open>right\<close> and the axis before it by \<open>top\<close> and \<open>bottom\<close>.
  A negative amount crops; a size that would become negative raises.
\<close>

definition pad_axis :: "int \<Rightarrow> int \<Rightarrow> 'a \<Rightarrow> 'a list \<Rightarrow> 'a list" where
  "pad_axis lo hi v xs =
     (let ys = (if 0 \<le> lo then replicate (nat lo) v @ xs else drop (nat (- lo)) xs)
      in if 0 \<le> hi then ys @ replicate (nat hi) v else take (length ys - nat (- hi)) ys)"

definition F_pad :: "int \<times> int \<times> int \<times> int \<Rightarrow> real \<Rightarrow> tensor4 \<Rightarrow> error + tensor4" where
  "F_pad p v x =
     (case p of (pl, pr, pt, pb) \<Rightarrow>
        if list_ex (list_ex (\<lambda>img.
             int (length img) + pt < 0 \<or> int (length img) + pb < 0 \<or>
             int (length img) + pt + pb < 0 \<or>
             list_ex (\<lambda>row. int (length row) + pl < 0 \<or> int (length row) + pr < 0 \<or>
                             int (length row) + pl + pr < 0) img)) x
        then Inl RuntimeError
        else Inr (map (map (\<lambda>img.
               pad_axis pt pb (replicate (nat (width img + pl + pr)) v)
                 (map (pad_axis pl pr v) img))) x))"

text \<open>
  The slice \<^verbatim>\<open>xs[start:stop]\<close> of Python and of the tensor library: a negative
  index counts from the end, an index out of range is clamped, an absent one is the
  end of the axis on its side.
\<close>

definition slice_index :: "nat \<Rightarrow> int \<Rightarrow> nat" where
  "slice_index n i = (if i < 0 then nat (max 0 (int n + i)) else min (nat i) n)"

definition py_slice :: "int option \<Rightarrow> int option \<Rightarrow> 'a list \<Rightarrow> 'a list" where
  "py_slice start stop xs =
     (let n = length xs;
          s = (case start of None \<Rightarrow> 0 | Some i \<Rightarrow> slice_index n i);
          e = (case stop of None \<Rightarrow> n | Some i \<Rightarrow> slice_index n i)
      in take (e - s) (drop s xs))"

text \<open>
  \<^verbatim>\<open>x.view(r, c)\<close> on a tensor of rank 2: the entries in row-major order, cut into
  \<open>r\<close> rows of \<open>c\<close>. It raises unless \<open>r * c\<close> is the number of entries. (A size of
  \<open>-1\<close>, which the library would infer, is not modelled: the sizes passed here are
  products of the latent configuration, and no model with a negative one can be
  built from its blocks.)
\<close>

definition view2 :: "int \<Rightarrow> int \<Rightarrow> tensor2 \<Rightarrow> error + tensor2" where
  "view2 r c x =
     (let flat = concat x
      in if r < 0 \<or> c < 0 \<or> r * c \<noteq> int (length flat) then Inl RuntimeError
         else Inr (map (\<lambda>i. take (nat c) (drop (i * nat c) flat)) [0..<nat r]))"

text \<open>\<^verbatim>\<open>nn.Softmax(dim=1)\<close> on a tensor of rank 2 normalises each row.\<close>

definition Softmax :: "tensor2 \<Rightarrow> tensor2" where
  "Softmax x = map (\<lambda>row. map (\<lambda>a. exp a / sum_list (map exp row)) row) x"

text \<open>\<^verbatim>\<open>nn.Sigmoid()\<close> acts on every entry.\<close>

definition Sigmoid :: "tensor4 \<Rightarrow> tensor4" where
  "Sigmoid x = map (map (map (map (\<lambda>a. 1 / (1 + exp (- a)))))) x"

text \<open>
  \<^verbatim>\<open>nn.MaxPool2d(k, stride=s)\<close>: the maximum over each \<open>k \<times> k\<close> window, the windows
  \<open>s\<close> apart; an axis of size \<open>n\<close> becomes one of size \<open>(n - k) div s + 1\<close>. It raises
  when a size of the result would be less than 1, or an input has no channel.
\<close>

definition window_max :: "real list \<Rightarrow> real" where
  "window_max xs = (case xs of [] \<Rightarrow> 0 | a # as \<Rightarrow> fold max as a)"

definition pool_size :: "int \<Rightarrow> int \<Rightarrow> int \<Rightarrow> int" where
  "pool_size k s n = (n - k) div s + 1"

definition pool_image :: "int \<Rightarrow> int \<Rightarrow> real list list \<Rightarrow> real list list" where
  "pool_image k s img =
     map (\<lambda>i. map (\<lambda>j.
            window_max (concat (map (\<lambda>di. map (\<lambda>dj. img ! (i * nat s + di) ! (j * nat s + dj))
                                                [0..<nat k]) [0..<nat k])))
          [0..<nat (pool_size k s (width img))])
       [0..<nat (pool_size k s (int (length img)))]"

definition MaxPool2d :: "int \<Rightarrow> int \<Rightarrow> tensor4 \<Rightarrow> error + tensor4" where
  "MaxPool2d k s x =
     (if k \<le> 0 \<or> s \<le> 0 \<or>
         list_ex (\<lambda>xc. xc = [] \<or>
           list_ex (\<lambda>img. pool_size k s (int (length img)) < 1 \<or>
                           pool_size k s (width img) < 1) xc) x
      then Inl RuntimeError
      else Inr (map (map (pool_image k s)) x))"

text \<open>\<^verbatim>\<open>nn.Flatten()\<close> keeps the batch axis and lays the other three out in a row.\<close>

definition Flatten :: "tensor4 \<Rightarrow> tensor2" where
  "Flatten x = map (\<lambda>xc. concat (map concat xc)) x"

text \<open>
  \<^verbatim>\<open>nn.Unflatten(1, (c, h, w))\<close> cuts each row of \<open>c * h * w\<close> entries into \<open>c\<close>
  images of \<open>h\<close> rows of \<open>w\<close>. It raises on a row of another length.
\<close>

definition Unflatten :: "int \<times> int \<times> int \<Rightarrow> tensor2 \<Rightarrow> error + tensor4" where
  "Unflatten d x =
     (case d of (c, h, w) \<Rightarrow>
        if c < 0 \<or> h < 0 \<or> w < 0 \<or> list_ex (\<lambda>v. int (length v) \<noteq> c * h * w) x
        then Inl RuntimeError
        else Inr (map (\<lambda>v. map (\<lambda>ci. map (\<lambda>i.
                    take (nat w) (drop ((ci * nat h + i) * nat w) v)) [0..<nat h]) [0..<nat c]) x))"

text \<open>
  The arithmetic of \<^verbatim>\<open>0.99 * d + 0.01 * torch.ones_like(d) / n\<close>, entry by entry.
  (In \<open>scalar_div\<close> the divisor is the number of categories, which is the length of
  the rows divided: it is 0 only where there is no entry to divide.)
\<close>

definition scalar_mul :: "real \<Rightarrow> tensor2 \<Rightarrow> tensor2" where
  "scalar_mul a x = map (map (\<lambda>v. a * v)) x"

definition scalar_div :: "tensor2 \<Rightarrow> int \<Rightarrow> tensor2" where
  "scalar_div x n = map (map (\<lambda>v. v / of_int n)) x"

definition ones_like :: "tensor2 \<Rightarrow> tensor2" where
  "ones_like x = map (map (\<lambda>v. 1)) x"

definition tensor_add :: "tensor2 \<Rightarrow> tensor2 \<Rightarrow> tensor2" where
  "tensor_add x y = map2 (map2 (+)) x y"

text \<open>\<^verbatim>\<open>np.ceil\<close> on a float, and \<^verbatim>\<open>int(...)\<close> of a float (truncation towards 0).\<close>

definition np_ceil :: "real \<Rightarrow> real" where
  "np_ceil a = of_int \<lceil>a\<rceil>"

definition int_of_float :: "real \<Rightarrow> int" where
  "int_of_float a = (if 0 \<le> a then \<lfloor>a\<rfloor> else \<lceil>a\<rceil>)"

subsection \<open>The blocks defined in other files\<close>

text \<open>
  The forward passes of \<^verbatim>\<open>CNNLayer(in_channels, out_channels, kernel_size)\<close>,
  \<^verbatim>\<open>DeCNNLayer(in_channels, out_channels, kernel_size, stride, padding)\<close>,
  \<^verbatim>\<open>MLP(depth, in_dim, hidden_dim, out_dim)\<close> and \<^verbatim>\<open>STMNsampler()\<close>, each a call
  on the state \<open>'w\<close>.
\<close>

record 'w blocks =
  CNNLayer :: "int \<Rightarrow> int \<Rightarrow> int \<Rightarrow> tensor4 \<Rightarrow> ('w, tensor4) call"
  DeCNNLayer :: "int \<Rightarrow> int \<Rightarrow> int \<Rightarrow> int \<Rightarrow> int \<Rightarrow> tensor4 \<Rightarrow> ('w, tensor4) call"
  MLP :: "int \<Rightarrow> int \<Rightarrow> int \<Rightarrow> int \<Rightarrow> tensor2 \<Rightarrow> ('w, tensor2) call"
  STMNsampler :: "tensor2 \<Rightarrow> ('w, tensor2) call"

subsection \<open>The class and its constructor\<close>

record 'w VariationalAutoEncoder =
  image_height :: int
  image_width :: int
  n_distributions :: int
  n_categories :: int
  latent_size :: int
  scalings :: "int list"
  padded_height :: int
  padded_width :: int
  pad_height :: int
  pad_width :: int
  pad_top :: int
  pad_bottom :: int
  pad_left :: int
  pad_right :: int
  latent_channels_size :: int
  post_cnn_height :: int
  post_cnn_width :: int
  post_cnn_encoder_size :: int
  encoder :: "tensor4 \<Rightarrow> ('w, tensor2) call"
  softmax_act :: "tensor2 \<Rightarrow> tensor2"
  sampler :: "tensor2 \<Rightarrow> ('w, tensor2) call"
  decoder :: "tensor2 \<Rightarrow> ('w, tensor4) call"
  modules_state :: 'w

text \<open>
  \<^verbatim>\<open>__init__(self, image_height, image_width, n_distributions=16, n_categories=32)\<close>.
  The blocks \<open>B\<close> and their initial state \<open>w\<close> are the two further arguments of the
  model. An \<^verbatim>\<open>nn.Sequential\<close> passes its input through its modules in order.
\<close>

definition init ::
  "'w blocks \<Rightarrow> int \<Rightarrow> int \<Rightarrow> int \<Rightarrow> int \<Rightarrow> 'w \<Rightarrow> 'w VariationalAutoEncoder" where
  "init B image_height' image_width' n_distributions' n_categories' w =
     (let latent_size' = n_distributions' * n_categories';
          scalings' = [8, 4, 2];
          total_scaling = prod_list scalings';
          padded_height' = int_of_float
            (np_ceil (of_int image_height' / of_int total_scaling) * of_int total_scaling);
          padded_width' = int_of_float
            (np_ceil (of_int image_width' / of_int total_scaling) * of_int total_scaling);
          pad_height' = padded_height' - image_height';
          pad_width' = padded_width' - image_width';
          pad_top' = pad_height' div 2;
          pad_bottom' = pad_height' - pad_top';
          pad_left' = pad_width' div 2;
          pad_right' = pad_width' - pad_left';
          latent_channels_size' = n_distributions';
          post_cnn_height' = padded_height' div total_scaling;
          post_cnn_width' = padded_width' div total_scaling;
          post_cnn_encoder_size' = post_cnn_height' * post_cnn_width' * latent_channels_size'
      in \<lparr> image_height = image_height',
           image_width = image_width',
           n_distributions = n_distributions',
           n_categories = n_categories',
           latent_size = latent_size',
           scalings = scalings',
           padded_height = padded_height',
           padded_width = padded_width',
           pad_height = pad_height',
           pad_width = pad_width',
           pad_top = pad_top',
           pad_bottom = pad_bottom',
           pad_left = pad_left',
           pad_right = pad_right',
           latent_channels_size = latent_channels_size',
           post_cnn_height = post_cnn_height',
           post_cnn_width = post_cnn_width',
           post_cnn_encoder_size = post_cnn_encoder_size',
           encoder = (\<lambda>x.
             and_then (CNNLayer B 1 64 3 x) (\<lambda>x.
             and_then (of_result (MaxPool2d (scalings' ! 0) (scalings' ! 0) x)) (\<lambda>x.
             and_then (CNNLayer B 64 256 3 x) (\<lambda>x.
             and_then (of_result (MaxPool2d (scalings' ! 1) (scalings' ! 1) x)) (\<lambda>x.
             and_then (CNNLayer B 256 latent_channels_size' 3 x) (\<lambda>x.
             and_then (of_result (MaxPool2d (scalings' ! 2) (scalings' ! 2) x)) (\<lambda>x.
             and_then (returns (Flatten x)) (\<lambda>x.
             MLP B 3 post_cnn_encoder_size' latent_size' (n_distributions' * n_categories') x)))))))),
           softmax_act = Softmax,
           sampler = STMNsampler B,
           decoder = (\<lambda>x.
             and_then (MLP B 3 latent_size' latent_size' post_cnn_encoder_size' x) (\<lambda>x.
             and_then (of_result
               (Unflatten (latent_channels_size', post_cnn_height', post_cnn_width') x)) (\<lambda>x.
             and_then (DeCNNLayer B latent_channels_size' 256 (scalings' ! 2) (scalings' ! 2) 0 x) (\<lambda>x.
             and_then (DeCNNLayer B 256 64 (scalings' ! 1) (scalings' ! 1) 0 x) (\<lambda>x.
             and_then (DeCNNLayer B 64 1 (scalings' ! 0) (scalings' ! 0) 0 x) (\<lambda>x.
             returns (Sigmoid x))))))),
           modules_state = w \<rparr>)"

subsection \<open>The methods\<close>

text \<open>
  A method takes its arguments and then the object \<open>self\<close>, and returns its result (or
  the exception) with the object. \<open>with_self\<close> reads the object where the code reads
  an attribute; \<open>call_module\<close> runs one of the object's modules on the state of the
  modules and stores the state it leaves.
\<close>

definition with_self :: "('s \<Rightarrow> ('s, 'a) call) \<Rightarrow> ('s, 'a) call" where
  "with_self f self = f self self"

definition call_module ::
  "('w VariationalAutoEncoder \<Rightarrow> 'a \<Rightarrow> ('w, 'b) call) \<Rightarrow> 'a \<Rightarrow>
   ('w VariationalAutoEncoder, 'b) call" where
  "call_module f a self =
     (case f self a (modules_state self) of (r, w') \<Rightarrow> (r, self\<lparr>modules_state := w'\<rparr>))"

definition pad_input :: "tensor4 \<Rightarrow> ('w VariationalAutoEncoder, tensor4) call" where
  "pad_input x =
     with_self (\<lambda>self.
       of_result (F_pad (pad_left self, pad_right self, pad_top self, pad_bottom self) 0 x))"

definition unpad_output :: "tensor4 \<Rightarrow> ('w VariationalAutoEncoder, tensor4) call" where
  "unpad_output x =
     with_self (\<lambda>self.
       let x = (if pad_top self + pad_bottom self > 0
                then (if pad_bottom self > 0
                      then map (map (py_slice (Some (pad_top self)) (Some (- pad_bottom self)))) x
                      else map (map (py_slice (Some (pad_top self)) None)) x)
                else x);
           x = (if pad_left self + pad_right self > 0
                then (if pad_right self > 0
                      then map (map (map
                             (py_slice (Some (pad_left self)) (Some (- pad_right self))))) x
                      else map (map (map (py_slice (Some (pad_left self)) None))) x)
                else x)
       in returns x)"

definition encode :: "tensor4 \<Rightarrow> ('w VariationalAutoEncoder, tensor2 \<times> tensor2) call" where
  "encode x =
     (let batch_dim = int (length x) in
      and_then (pad_input x) (\<lambda>x.
      and_then (call_module encoder x) (\<lambda>x.
      and_then (with_self (\<lambda>self. of_result
        (view2 (batch_dim * n_distributions self) (n_categories self) x))) (\<lambda>x.
      and_then (with_self (\<lambda>self. returns (softmax_act self x))) (\<lambda>distributions.
      and_then (with_self (\<lambda>self. returns
        (tensor_add (scalar_mul 0.99 distributions)
           (scalar_div (scalar_mul 0.01 (ones_like distributions)) (n_categories self)))))
        (\<lambda>distributions.
      and_then (call_module sampler distributions) (\<lambda>sample.
      and_then (with_self (\<lambda>self. of_result
        (view2 batch_dim (n_distributions self * n_categories self) sample))) (\<lambda>sample.
      and_then (with_self (\<lambda>self. of_result
        (view2 batch_dim (n_distributions self * n_categories self) distributions)))
        (\<lambda>distributions.
      returns (sample, distributions))))))))))"

definition decode :: "tensor2 \<Rightarrow> ('w VariationalAutoEncoder, tensor4) call" where
  "decode z =
     and_then (call_module decoder z) (\<lambda>x.
     and_then (unpad_output x) (\<lambda>x.
     returns x))"

definition forward ::
  "tensor4 \<Rightarrow> ('w VariationalAutoEncoder, tensor4 \<times> tensor2 \<times> tensor2) call" where
  "forward x =
     and_then (encode x) (\<lambda>(latent_sample, latent_distribution).
     and_then (decode latent_sample) (\<lambda>decoded_out.
     returns (decoded_out, latent_sample, latent_distribution)))"

subsection \<open>An instance of the blocks\<close>

text \<open>
  Blocks that return zeros of the sizes their constructors name (and a sampler that
  picks the first category), on a state with nothing in it. They give the theorems
  below a concrete model to be exercised on.
\<close>

definition zero_blocks :: "unit blocks" where
  "zero_blocks =
     \<lparr> CNNLayer = (\<lambda>cin cout k x. returns
         (map (\<lambda>xc. replicate (nat cout)
                 (case xc of [] \<Rightarrow> [] | img # _ \<Rightarrow> map (map (\<lambda>v. 0)) img)) x)),
       DeCNNLayer = (\<lambda>cin cout k stride padding x. returns
         (map (\<lambda>xc. replicate (nat cout)
                 (case xc of [] \<Rightarrow> []
                  | img # _ \<Rightarrow> replicate (nat (int (length img) * k))
                                 (replicate (nat (width img * k)) 0))) x)),
       MLP = (\<lambda>depth din dh dout x. returns (map (\<lambda>v. replicate (nat dout) 0) x)),
       STMNsampler = (\<lambda>x. returns
         (map (\<lambda>row. case row of [] \<Rightarrow> [] | p # ps \<Rightarrow> 1 # map (\<lambda>v. 0) ps) x)) \<rparr>"

subsection \<open>The contract of the blocks\<close>

text \<open>
  Modelled from the spec: the forward passes of \<^verbatim>\<open>CNNLayer\<close>, \<^verbatim>\<open>DeCNNLayer\<close>,
  \<^verbatim>\<open>MLP\<close> and \<^verbatim>\<open>STMNsampler\<close> are defined in files that are not at hand; the spec
  gives them as black boxes with a contract on shapes. A stage of the encoder divides the
  spatial size by exactly its scaling, and \<^verbatim>\<open>MaxPool2d\<close> does the division, so the
  convolution block maps \<open>(b, c_in, h, w)\<close> to \<open>(b, c_out, h, w)\<close>; the transposed
  convolution block with kernel size and stride \<open>k\<close> and padding 0 multiplies the spatial
  size by exactly \<open>k\<close>; the fully-connected block maps \<open>(b, d_in)\<close> to \<open>(b, d_out)\<close>; and
  the sample that the sampler returns has the shape of the distribution. Each block
  returns (it raises nothing) on an input of the shape it was built for, and what it
  returns can be viewed (it is contiguous, as the results of the library's own
  operations are).
\<close>

definition shape_contract :: "'w blocks \<Rightarrow> bool" where
  "shape_contract B =
     ((\<forall>cin cout b h w x s.
         0 < cin \<and> 0 < cout \<and> 0 < h \<and> 0 < w \<and> shape4 x b cin h w \<longrightarrow>
         (\<exists>y s'. CNNLayer B cin cout 3 x s = (Inr y, s') \<and> shape4 y b cout h w)) \<and>
      (\<forall>cin cout k b h w x s.
         0 < cin \<and> 0 < cout \<and> 0 < k \<and> 0 < h \<and> 0 < w \<and> shape4 x b cin h w \<longrightarrow>
         (\<exists>y s'. DeCNNLayer B cin cout k k 0 x s = (Inr y, s') \<and>
                  shape4 y b cout (h * k) (w * k))) \<and>
      (\<forall>depth din dh dout b x s.
         0 < din \<and> 0 < dout \<and> shape2 x b din \<longrightarrow>
         (\<exists>y s'. MLP B depth din dh dout x s = (Inr y, s') \<and> shape2 y b dout)) \<and>
      (\<forall>r c x s.
         0 < c \<and> shape2 x r c \<longrightarrow>
         (\<exists>y s'. STMNsampler B x s = (Inr y, s') \<and> shape2 y r c)))"

subsection \<open>The attributes that are fixed at construction\<close>

text \<open>
  The attributes that make up the shape plan, and those that make up the latent
  configuration.
\<close>

definition shape_plan ::
  "'w VariationalAutoEncoder \<Rightarrow> int \<times> int \<times> int \<times> int \<times> int \<times> int \<times> int \<times> int \<times> int" where
  "shape_plan self =
     (padded_height self, padded_width self, pad_top self, pad_bottom self, pad_left self,
      pad_right self, post_cnn_height self, post_cnn_width self, post_cnn_encoder_size self)"

definition latent_configuration :: "'w VariationalAutoEncoder \<Rightarrow> int \<times> int \<times> int" where
  "latent_configuration self = (n_distributions self, n_categories self, latent_size self)"

subsection \<open>The sampler\<close>

text \<open>
  Modelled from the spec: the forward value of \<^verbatim>\<open>STMNsampler\<close>, whose file is not at
  hand. The spec gives it as a straight-through estimator: a hard categorical draw for
  each row, a one-hot vector whose hot index is drawn proportionally to the row's
  probabilities, re-added to the probabilities with their value detached, so that the
  value is that of the draw and the gradient that of the probabilities. The draw is
  the true stochastic sampling that the spec names, by inversion: the generator yields
  a number \<open>u\<close> uniform in \<open>[0, 1)\<close>, and the hot index is the first at which the
  running sum of the row exceeds \<open>u\<close> (the last index, should none). The generator is
  the parameter \<open>rand\<close>: it takes the state of the blocks to the number drawn and the
  state after the draw. The rows are sampled in order, each with a draw of its own.
\<close>

fun hot_index :: "real \<Rightarrow> real list \<Rightarrow> nat" where
  "hot_index u [] = 0"
| "hot_index u [p] = 0"
| "hot_index u (p # q # ps) = (if u < p then 0 else Suc (hot_index (u - p) (q # ps)))"

definition one_hot :: "nat \<Rightarrow> nat \<Rightarrow> real list" where
  "one_hot n i = map (\<lambda>j. if j = i then 1 else 0) [0..<n]"

definition straight_through :: "real list \<Rightarrow> real list \<Rightarrow> real list" where
  "straight_through hard probs = map2 (\<lambda>a p. a + p - p) hard probs"

fun draws :: "('w \<Rightarrow> real \<times> 'w) \<Rightarrow> nat \<Rightarrow> 'w \<Rightarrow> real list" where
  "draws rand 0 s = []"
| "draws rand (Suc n) s = (case rand s of (u, s') \<Rightarrow> u # draws rand n s')"

fun sample_rows :: "('w \<Rightarrow> real \<times> 'w) \<Rightarrow> tensor2 \<Rightarrow> 'w \<Rightarrow> tensor2 \<times> 'w" where
  "sample_rows rand [] s = ([], s)"
| "sample_rows rand (row # rows) s =
     (case rand s of (u, s1) \<Rightarrow>
        case sample_rows rand rows s1 of (ys, s2) \<Rightarrow>
          (straight_through (one_hot (length row) (hot_index u row)) row # ys, s2))"

definition STMN_forward :: "('w \<Rightarrow> real \<times> 'w) \<Rightarrow> tensor2 \<Rightarrow> ('w, tensor2) call" where
  "STMN_forward rand x s = (case sample_rows rand x s of (y, s') \<Rightarrow> (Inr y, s'))"

section \<open>The shape plan\<close>

subsection \<open>The attributes that the constructor sets\<close>

lemma int_of_float_of_int: "int_of_float (of_int k) = k"
  by (simp add: int_of_float_def)

lemma padded_formula:
  "int_of_float (np_ceil (of_int d / of_int t) * of_int t) = - ((- d) div t) * t"
proof -
  have "np_ceil (of_int d / of_int t) * of_int t = of_int (\<lceil>of_int d / (of_int t :: real)\<rceil> * t)"
    by (simp add: np_ceil_def)
  then show ?thesis
    by (simp only: int_of_float_of_int ceiling_divide_eq_div)
qed

lemma init_padded:
  "padded_height (init B h w nd nc s) = - ((- h) div 64) * 64"
  "padded_width (init B h w nd nc s) = - ((- w) div 64) * 64"
  using padded_formula [of h 64] padded_formula [of w 64]
  by (simp_all add: init_def Let_def)

lemma init_fields:
  "image_height (init B h w nd nc s) = h"
  "image_width (init B h w nd nc s) = w"
  "n_distributions (init B h w nd nc s) = nd"
  "n_categories (init B h w nd nc s) = nc"
  "latent_size (init B h w nd nc s) = nd * nc"
  "scalings (init B h w nd nc s) = [8, 4, 2]"
  "latent_channels_size (init B h w nd nc s) = nd"
  "modules_state (init B h w nd nc s) = s"
  "softmax_act (init B h w nd nc s) = Softmax"
  "sampler (init B h w nd nc s) = STMNsampler B"
  by (simp_all add: init_def Let_def)

lemma init_pads:
  "pad_height (init B h w nd nc s) = padded_height (init B h w nd nc s) - h"
  "pad_width (init B h w nd nc s) = padded_width (init B h w nd nc s) - w"
  "pad_top (init B h w nd nc s) = (padded_height (init B h w nd nc s) - h) div 2"
  "pad_bottom (init B h w nd nc s) =
     (padded_height (init B h w nd nc s) - h) - (padded_height (init B h w nd nc s) - h) div 2"
  "pad_left (init B h w nd nc s) = (padded_width (init B h w nd nc s) - w) div 2"
  "pad_right (init B h w nd nc s) =
     (padded_width (init B h w nd nc s) - w) - (padded_width (init B h w nd nc s) - w) div 2"
  "post_cnn_height (init B h w nd nc s) = padded_height (init B h w nd nc s) div 64"
  "post_cnn_width (init B h w nd nc s) = padded_width (init B h w nd nc s) div 64"
  "post_cnn_encoder_size (init B h w nd nc s) =
     post_cnn_height (init B h w nd nc s) * post_cnn_width (init B h w nd nc s) * nd"
  by (simp_all add: init_def Let_def)

lemma ceil_mult_bounds:
  fixes d t :: int
  assumes "0 < t"
  shows "(- ((- d) div t) * t) mod t = 0"
    and "- ((- d) div t) * t - t < d"
    and "d \<le> - ((- d) div t) * t"
    and "(- ((- d) div t) * t) div t = - ((- d) div t)"
proof -
  have e: "(- d) div t * t + (- d) mod t = - d"
    by (rule div_mult_mod_eq)
  have m: "0 \<le> (- d) mod t" "(- d) mod t < t"
    using assms by simp_all
  show "(- ((- d) div t) * t) mod t = 0" by simp
  show "- ((- d) div t) * t - t < d" using e m by linarith
  show "d \<le> - ((- d) div t) * t" using e m by linarith
  have "(- ((- d) div t)) * t div t = - ((- d) div t)"
    by (rule nonzero_mult_div_cancel_right) (use assms in simp)
  then show "(- ((- d) div t) * t) div t = - ((- d) div t)" .
qed

lemma ceil_mult_least:
  fixes d k t :: int
  assumes "0 < t" and "k mod t = 0" and "d \<le> k"
  shows "- ((- d) div t) * t \<le> k"
proof -
  from assms(2) obtain q where k: "k = q * t"
    by (metis mod_eq_0_iff_dvd dvd_def mult.commute)
  have "- k \<le> - d" using assms(3) by simp
  then have "(- k) div t \<le> (- d) div t"
    using assms(1) by (rule zdiv_mono1)
  moreover have "(- k) div t = - q"
  proof -
    have "(- q) * t div t = - q"
      by (rule nonzero_mult_div_cancel_right) (use assms(1) in simp)
    then show ?thesis by (simp only: k mult_minus_left)
  qed
  ultimately have "- ((- d) div t) \<le> q" by linarith
  then have "- ((- d) div t) * t \<le> q * t"
    using assms(1) by (simp only: mult_right_mono less_imp_le)
  then show ?thesis using k by simp
qed

lemma split_halves:
  fixes p :: int
  shows "p div 2 + (p - p div 2) = p" and "p div 2 \<le> p - p div 2"
    and "0 \<le> p \<Longrightarrow> 0 \<le> p div 2" and "0 \<le> p \<Longrightarrow> 0 \<le> p - p div 2"
    and "0 < p \<Longrightarrow> 0 < p - p div 2"
  by linarith+

lemma init_padded_height:
  "padded_height (init B h w nd nc s) mod 64 = 0"
  "padded_height (init B h w nd nc s) - 64 < h"
  "h \<le> padded_height (init B h w nd nc s)"
  "post_cnn_height (init B h w nd nc s) * 64 = padded_height (init B h w nd nc s)"
  using ceil_mult_bounds [of 64 h] by (simp_all add: init_pads init_padded)

lemma init_padded_width:
  "padded_width (init B h w nd nc s) mod 64 = 0"
  "padded_width (init B h w nd nc s) - 64 < w"
  "w \<le> padded_width (init B h w nd nc s)"
  "post_cnn_width (init B h w nd nc s) * 64 = padded_width (init B h w nd nc s)"
  using ceil_mult_bounds [of 64 w] by (simp_all add: init_pads init_padded)

lemma init_padded_least:
  "k mod 64 = 0 \<Longrightarrow> h \<le> k \<Longrightarrow> padded_height (init B h w nd nc s) \<le> k"
  "k mod 64 = 0 \<Longrightarrow> w \<le> k \<Longrightarrow> padded_width (init B h w nd nc s) \<le> k"
  using ceil_mult_least [of 64 k h] ceil_mult_least [of 64 k w]
  by (simp_all add: init_padded)

lemma init_pads_nonneg:
  "0 \<le> pad_top (init B h w nd nc s)" "0 \<le> pad_bottom (init B h w nd nc s)"
  "0 \<le> pad_left (init B h w nd nc s)" "0 \<le> pad_right (init B h w nd nc s)"
  using init_padded_height(3) [of h B w nd nc s] init_padded_width(3) [of w B h nd nc s]
  by (simp_all add: init_pads)

lemma init_pads_sum:
  "pad_top (init B h w nd nc s) + pad_bottom (init B h w nd nc s) =
     padded_height (init B h w nd nc s) - h"
  "pad_left (init B h w nd nc s) + pad_right (init B h w nd nc s) =
     padded_width (init B h w nd nc s) - w"
  by (simp_all add: init_pads)

subsection \<open>Padded sizes\<close>

text \<open>
  Claim C2. For positive \<open>image_height\<close> and \<open>image_width\<close> up to \<open>2 ^ 53\<close>
  (the sizes on which the double quotient of the constructor is exact), the product of the
  scalings is \<open>8 * 4 * 2 = 64\<close>; \<open>padded_height\<close> is a multiple of 64 with
  \<open>padded_height - 64 < image_height \<le> padded_height\<close>, and it is the least multiple of
  64 that is at least \<open>image_height\<close>; \<open>post_cnn_height * 64 = padded_height\<close>; and
  the same holds of the widths.
\<close>

theorem padded_dims_smallest_multiple:
  assumes "0 < h" and "h \<le> 2 ^ 53" and "0 < w" and "w \<le> 2 ^ 53"
    and "m = init B h w nd nc s"
  shows "prod_list (scalings m) = 8 * 4 * 2 \<and> prod_list (scalings m) = 64 \<and>
         padded_height m mod 64 = 0 \<and> padded_height m - 64 < h \<and> h \<le> padded_height m \<and>
         (\<forall>k. k mod 64 = 0 \<and> h \<le> k \<longrightarrow> padded_height m \<le> k) \<and>
         post_cnn_height m * 64 = padded_height m \<and>
         padded_width m mod 64 = 0 \<and> padded_width m - 64 < w \<and> w \<le> padded_width m \<and>
         (\<forall>k. k mod 64 = 0 \<and> w \<le> k \<longrightarrow> padded_width m \<le> k) \<and>
         post_cnn_width m * 64 = padded_width m"
  unfolding assms(5)
  by (simp add: init_fields init_padded_height init_padded_width init_padded_least)

theorem padded_dims_smallest_multiple_witness:
  "padded_height (init zero_blocks 100 130 4 8 ()) mod 64 = 0 \<and>
   padded_height (init zero_blocks 100 130 4 8 ()) - 64 < 100 \<and>
   100 \<le> padded_height (init zero_blocks 100 130 4 8 ()) \<and>
   padded_width (init zero_blocks 100 130 4 8 ()) mod 64 = 0 \<and>
   padded_width (init zero_blocks 100 130 4 8 ()) - 64 < 130 \<and>
   130 \<le> padded_width (init zero_blocks 100 130 4 8 ())"
  using padded_dims_smallest_multiple
    [of 100 130 "init zero_blocks 100 130 4 8 ()" zero_blocks 4 8 "()"]
  by simp

subsection \<open>Pad amounts\<close>

text \<open>
  Claim C4. For positive \<open>image_height\<close> and \<open>image_width\<close> up to \<open>2 ^ 53\<close>
  (the sizes on which the double quotient of the constructor is exact), the four pad amounts
  are non-negative; \<open>pad_top\<close> is the floor half of \<open>padded_height - image_height\<close>
  and \<open>pad_bottom\<close> is the rest, so that they add up to it; likewise \<open>pad_left\<close> and
  \<open>pad_right\<close> for the width.
\<close>

theorem pad_amounts_split:
  assumes "0 < h" and "h \<le> 2 ^ 53" and "0 < w" and "w \<le> 2 ^ 53"
    and "m = init B h w nd nc s"
  shows "0 \<le> pad_top m \<and> 0 \<le> pad_bottom m \<and> 0 \<le> pad_left m \<and> 0 \<le> pad_right m \<and>
         pad_top m = (padded_height m - h) div 2 \<and>
         pad_bottom m = (padded_height m - h) - pad_top m \<and>
         pad_top m + pad_bottom m = padded_height m - h \<and>
         pad_left m = (padded_width m - w) div 2 \<and>
         pad_right m = (padded_width m - w) - pad_left m \<and>
         pad_left m + pad_right m = padded_width m - w"
  unfolding assms(5)
  by (simp add: init_pads_nonneg init_pads_sum) (simp add: init_pads)

theorem pad_amounts_split_witness:
  "pad_top (init zero_blocks 100 130 4 8 ()) + pad_bottom (init zero_blocks 100 130 4 8 ())
     = padded_height (init zero_blocks 100 130 4 8 ()) - 100 \<and>
   pad_left (init zero_blocks 100 130 4 8 ()) + pad_right (init zero_blocks 100 130 4 8 ())
     = padded_width (init zero_blocks 100 130 4 8 ()) - 130 \<and>
   0 \<le> pad_top (init zero_blocks 100 130 4 8 ())"
  using pad_amounts_split
    [of 100 130 "init zero_blocks 100 130 4 8 ()" zero_blocks 4 8 "()"]
  by simp

section \<open>Padding and its removal\<close>

lemma pad_axis_nonneg:
  "0 \<le> lo \<Longrightarrow> 0 \<le> hi \<Longrightarrow> pad_axis lo hi v xs = replicate (nat lo) v @ xs @ replicate (nat hi) v"
  by (simp add: pad_axis_def)

lemma pad_axis_zero: "pad_axis 0 0 v xs = xs"
  by (simp add: pad_axis_def)

lemma slice_both_pad:
  assumes "0 \<le> lo" and "0 < hi"
  shows "py_slice (Some lo) (Some (- hi)) (replicate (nat lo) v @ xs @ replicate (nat hi) v) = xs"
proof -
  have "nat (int (length xs) + lo) - nat lo = length xs"
    using assms by linarith
  then show ?thesis
    using assms by (simp add: py_slice_def slice_index_def Let_def nat_add_distrib)
qed

lemma slice_low_pad:
  assumes "0 \<le> lo"
  shows "py_slice (Some lo) None (replicate (nat lo) v @ xs) = xs"
  using assms by (simp add: py_slice_def slice_index_def Let_def)

lemma crop_pad_axis:
  assumes "0 \<le> lo" and "0 \<le> hi"
  shows "(if lo + hi > 0
          then (if hi > 0 then py_slice (Some lo) (Some (- hi)) (pad_axis lo hi v xs)
                else py_slice (Some lo) None (pad_axis lo hi v xs))
          else pad_axis lo hi v xs) = xs"
proof (cases "0 < hi")
  case True
  then show ?thesis using assms slice_both_pad [of lo hi v xs]
    by (simp add: pad_axis_nonneg)
next
  case False
  then have "hi = 0" using assms by simp
  then show ?thesis using assms slice_low_pad [of lo v xs]
    by (cases "lo = 0") (simp_all add: pad_axis_nonneg)
qed


lemma F_pad_nonneg:
  assumes "0 \<le> pl" "0 \<le> pr" "0 \<le> pt" "0 \<le> pb"
  shows "F_pad (pl, pr, pt, pb) v x =
         Inr (map (map (\<lambda>img.
               pad_axis pt pb (replicate (nat (width img + pl + pr)) v)
                 (map (pad_axis pl pr v) img))) x)"
proof -
  have "\<not> list_ex (list_ex (\<lambda>img.
             int (length img) + pt < 0 \<or> int (length img) + pb < 0 \<or>
             int (length img) + pt + pb < 0 \<or>
             list_ex (\<lambda>row. int (length row) + pl < 0 \<or> int (length row) + pr < 0 \<or>
                             int (length row) + pl + pr < 0) img)) x"
    using assms by (auto simp: list_ex_iff)
  then show ?thesis by (simp add: F_pad_def)
qed

lemma pad_input_eq:
  assumes "0 \<le> pad_left m" "0 \<le> pad_right m" "0 \<le> pad_top m" "0 \<le> pad_bottom m"
  shows "pad_input x m =
         (Inr (map (map (\<lambda>img.
               pad_axis (pad_top m) (pad_bottom m)
                 (replicate (nat (width img + pad_left m + pad_right m)) 0)
                 (map (pad_axis (pad_left m) (pad_right m) 0) img))) x), m)"
  using assms by (simp add: pad_input_def with_self_def of_result_def F_pad_nonneg)

lemma unpad_output_eq:
  "unpad_output y m =
     (Inr (map (map (\<lambda>img.
        map (\<lambda>row. if pad_left m + pad_right m > 0
                    then (if pad_right m > 0
                          then py_slice (Some (pad_left m)) (Some (- pad_right m)) row
                          else py_slice (Some (pad_left m)) None row)
                    else row)
          (if pad_top m + pad_bottom m > 0
           then (if pad_bottom m > 0
                 then py_slice (Some (pad_top m)) (Some (- pad_bottom m)) img
                 else py_slice (Some (pad_top m)) None img)
           else img))) y), m)"
  by (simp add: unpad_output_def with_self_def returns_def Let_def o_def)

lemma unpad_pad_general:
  assumes "0 \<le> pad_left m" "0 \<le> pad_right m" "0 \<le> pad_top m" "0 \<le> pad_bottom m"
    and "pad_input x m = (Inr y, m')"
  shows "m' = m \<and> unpad_output y m = (Inr x, m)"
proof -
  have y: "y = map (map (\<lambda>img.
               pad_axis (pad_top m) (pad_bottom m)
                 (replicate (nat (width img + pad_left m + pad_right m)) 0)
                 (map (pad_axis (pad_left m) (pad_right m) 0) img))) x" and m': "m' = m"
    using assms(5) pad_input_eq [OF assms(1-4), of x] by auto
  have rows: "\<And>img z. (if pad_top m + pad_bottom m > 0
           then (if pad_bottom m > 0
                 then py_slice (Some (pad_top m)) (Some (- pad_bottom m))
                        (pad_axis (pad_top m) (pad_bottom m) z img)
                 else py_slice (Some (pad_top m)) None (pad_axis (pad_top m) (pad_bottom m) z img))
           else pad_axis (pad_top m) (pad_bottom m) z img) = img"
    by (rule crop_pad_axis [OF assms(3,4)])
  have cols: "\<And>row :: real list. (if pad_left m + pad_right m > 0
                    then (if pad_right m > 0
                          then py_slice (Some (pad_left m)) (Some (- pad_right m))
                                 (pad_axis (pad_left m) (pad_right m) 0 row)
                          else py_slice (Some (pad_left m)) None
                                 (pad_axis (pad_left m) (pad_right m) 0 row))
                    else pad_axis (pad_left m) (pad_right m) 0 row) = row"
    by (rule crop_pad_axis [OF assms(1,2)])
  have "unpad_output y m = (Inr x, m)"
    unfolding unpad_output_eq y
    by (simp add: o_def if_distrib [of "\<lambda>f. f _"] rows cols cong: if_cong)
  then show ?thesis using m' by simp
qed


lemma width_shape:
  "int (length img) = h \<Longrightarrow> 0 < h \<Longrightarrow> \<forall>row\<in>set img. int (length row) = w \<Longrightarrow> width img = w"
  by (cases img) (simp_all add: width_def)

lemma pad_image_shape:
  assumes "int (length img) = h" and "0 < h" and "\<forall>row\<in>set img. int (length row) = w"
    and "0 \<le> pl" "0 \<le> pr" "0 \<le> pt" "0 \<le> pb"
  shows "int (length (pad_axis pt pb (replicate (nat (width img + pl + pr)) v)
                        (map (pad_axis pl pr v) img))) = h + pt + pb"
    and "\<forall>row\<in>set (pad_axis pt pb (replicate (nat (width img + pl + pr)) v)
                        (map (pad_axis pl pr v) img)). int (length row) = w + pl + pr"
proof -
  have wd: "width img = w"
    using assms(1-3) by (rule width_shape)
  have "0 \<le> w" using assms(1-3) by (cases img) auto
  then show "int (length (pad_axis pt pb (replicate (nat (width img + pl + pr)) v)
                        (map (pad_axis pl pr v) img))) = h + pt + pb"
    using assms by (simp add: pad_axis_nonneg)
  show "\<forall>row\<in>set (pad_axis pt pb (replicate (nat (width img + pl + pr)) v)
                        (map (pad_axis pl pr v) img)). int (length row) = w + pl + pr"
    using assms \<open>0 \<le> w\<close> by (auto simp: pad_axis_nonneg wd)
qed

lemma shape4_iff:
  "shape4 x b c h w \<longleftrightarrow>
     int (length x) = b \<and>
     (\<forall>xc\<in>set x. int (length xc) = c \<and>
        (\<forall>img\<in>set xc. int (length img) = h \<and> (\<forall>row\<in>set img. int (length row) = w)))"
  by (simp add: shape4_def list_all_iff)

lemma shape4_map_images:
  assumes "shape4 x b c h w"
    and "\<And>img. int (length img) = h \<Longrightarrow> \<forall>row\<in>set img. int (length row) = w \<Longrightarrow>
           int (length (f img)) = h' \<and> (\<forall>row\<in>set (f img). int (length row) = w')"
  shows "shape4 (map (map f) x) b c h' w'"
  unfolding shape4_iff
proof (intro conjI ballI)
  show "int (length (map (map f) x)) = b"
    using assms(1) by (simp add: shape4_iff)
next
  fix xc assume "xc \<in> set (map (map f) x)"
  then obtain xc0 where xc0: "xc0 \<in> set x" "xc = map f xc0" by auto
  then show "int (length xc) = c"
    using assms(1) by (simp add: shape4_iff)
  fix img assume "img \<in> set xc"
  then obtain img0 where img0: "img0 \<in> set xc0" "img = f img0" using xc0 by auto
  have "int (length img0) = h" "\<forall>row\<in>set img0. int (length row) = w"
    using assms(1) xc0(1) img0(1) by (simp_all add: shape4_iff)
  then have r: "int (length (f img0)) = h' \<and> (\<forall>row\<in>set (f img0). int (length row) = w')"
    by (rule assms(2))
  show "int (length img) = h'" using r img0(2) by simp
  fix row assume "row \<in> set img"
  then show "int (length row) = w'" using r img0(2) by simp
qed

lemma F_pad_shape:
  assumes "shape4 x b c h w" and "0 < h"
    and "0 \<le> pl" "0 \<le> pr" "0 \<le> pt" "0 \<le> pb"
  shows "\<exists>y. F_pad (pl, pr, pt, pb) v x = Inr y \<and> shape4 y b c (h + pt + pb) (w + pl + pr)"
proof -
  have "shape4 (map (map (\<lambda>img.
               pad_axis pt pb (replicate (nat (width img + pl + pr)) v)
                 (map (pad_axis pl pr v) img))) x) b c (h + pt + pb) (w + pl + pr)"
    using assms(1)
  proof (rule shape4_map_images)
    fix img :: "real list list"
    assume a: "int (length img) = h" and r: "\<forall>row\<in>set img. int (length row) = w"
    show "int (length (pad_axis pt pb (replicate (nat (width img + pl + pr)) v)
                        (map (pad_axis pl pr v) img))) = h + pt + pb \<and>
        (\<forall>row\<in>set (pad_axis pt pb (replicate (nat (width img + pl + pr)) v)
                        (map (pad_axis pl pr v) img)). int (length row) = w + pl + pr)"
      using pad_image_shape [OF a assms(2) r assms(3-6)] by (rule conjI)
  qed
  then show ?thesis
    by (simp add: F_pad_nonneg [OF assms(3-6)])
qed

lemma pad_axis_zero_fun: "pad_axis 0 0 v = (\<lambda>xs. xs)"
  by (rule ext) (simp add: pad_axis_def)

lemma init_padded_exact:
  "h mod 64 = 0 \<Longrightarrow> padded_height (init B h w nd nc s) = h"
  "w mod 64 = 0 \<Longrightarrow> padded_width (init B h w nd nc s) = w"
  using init_padded_least(1) [of h h B w nd nc s] init_padded_height(3) [of h B w nd nc s]
    init_padded_least(2) [of w w B h nd nc s] init_padded_width(3) [of w B h nd nc s]
  by simp_all

text \<open>
  Claim C3. For a model built for positive sizes \<open>h\<close> and \<open>w\<close> and a tensor \<open>x\<close> of
  shape \<open>(b, 1, h, w)\<close>: \<open>pad_input\<close> returns a tensor of the padded sizes, and
  \<open>unpad_output\<close> of it is \<open>x\<close> again; and when \<open>h\<close> and \<open>w\<close> are multiples of 64,
  \<open>pad_input\<close> and \<open>unpad_output\<close> each return their argument, whatever it is.
\<close>

theorem unpad_pad_roundtrip:
  assumes "0 < h" and "0 < w" and "m = init B h w nd nc s" and "shape4 x b 1 h w"
  shows "(\<exists>y. pad_input x m = (Inr y, m) \<and> shape4 y b 1 (padded_height m) (padded_width m) \<and>
              unpad_output y m = (Inr x, m)) \<and>
         (h mod 64 = 0 \<and> w mod 64 = 0 \<longrightarrow>
            (\<forall>z. pad_input z m = (Inr z, m) \<and> unpad_output z m = (Inr z, m)))"
proof
  have nn: "0 \<le> pad_left m" "0 \<le> pad_right m" "0 \<le> pad_top m" "0 \<le> pad_bottom m"
    unfolding assms(3) by (rule init_pads_nonneg)+
  obtain y where y: "F_pad (pad_left m, pad_right m, pad_top m, pad_bottom m) 0 x = Inr y"
    and sy: "shape4 y b 1 (h + pad_top m + pad_bottom m) (w + pad_left m + pad_right m)"
    using F_pad_shape [OF assms(4) assms(1) nn] by blast
  have p: "pad_input x m = (Inr y, m)"
    using y by (simp add: pad_input_def with_self_def of_result_def)
  have "h + pad_top m + pad_bottom m = padded_height m"
    "w + pad_left m + pad_right m = padded_width m"
    unfolding assms(3) using init_pads_sum [of B h w nd nc s] by simp_all
  then have "shape4 y b 1 (padded_height m) (padded_width m)"
    using sy by simp
  moreover have "unpad_output y m = (Inr x, m)"
    using unpad_pad_general [OF nn p] by simp
  ultimately show "\<exists>y. pad_input x m = (Inr y, m) \<and>
      shape4 y b 1 (padded_height m) (padded_width m) \<and> unpad_output y m = (Inr x, m)"
    using p by blast
next
  show "h mod 64 = 0 \<and> w mod 64 = 0 \<longrightarrow>
            (\<forall>z. pad_input z m = (Inr z, m) \<and> unpad_output z m = (Inr z, m))"
  proof (intro impI allI)
    fix z
    assume d: "h mod 64 = 0 \<and> w mod 64 = 0"
    then have z: "pad_top m = 0" "pad_bottom m = 0" "pad_left m = 0" "pad_right m = 0"
      unfolding assms(3) by (simp_all add: init_pads init_padded_exact)
    have "pad_input z m = (Inr z, m)"
      using pad_input_eq [of m z] by (simp add: z pad_axis_zero pad_axis_zero_fun)
    moreover have "unpad_output z m = (Inr z, m)"
      by (simp add: unpad_output_eq z)
    ultimately show "pad_input z m = (Inr z, m) \<and> unpad_output z m = (Inr z, m)" ..
  qed
qed

theorem unpad_pad_roundtrip_witness:
  "\<exists>y. pad_input [[[[1]]]] (init zero_blocks 1 1 4 8 ()) = (Inr y, init zero_blocks 1 1 4 8 ()) \<and>
       unpad_output y (init zero_blocks 1 1 4 8 ()) = (Inr [[[[1]]]], init zero_blocks 1 1 4 8 ())"
proof -
  have s: "shape4 [[[[1]]]] 1 1 1 1"
    by (simp add: shape4_def)
  show ?thesis
    using unpad_pad_roundtrip [of 1 1 "init zero_blocks 1 1 4 8 ()" zero_blocks 4 8 "()" "[[[[1]]]]" 1, OF _ _ refl s]
    by auto
qed

text \<open>
  Claim C9. For every construction, \<open>pad_top \<le> pad_bottom\<close> and
  \<open>pad_left \<le> pad_right\<close>; a positive \<open>pad_height\<close> gives a positive \<open>pad_bottom\<close>
  and a positive \<open>pad_width\<close> a positive \<open>pad_right\<close>; so the guards of the two
  fallback slices of \<open>unpad_output\<close> (a positive total pad with no pad on the high
  side) never hold, and \<open>unpad_output\<close> is the function with those branches removed.
\<close>

theorem fallback_slices_unreachable:
  assumes "m = init B h w nd nc s"
  shows "pad_top m \<le> pad_bottom m \<and> pad_left m \<le> pad_right m \<and>
     (0 < pad_height m \<longrightarrow> 0 < pad_bottom m) \<and> (0 < pad_width m \<longrightarrow> 0 < pad_right m) \<and>
     \<not> (pad_top m + pad_bottom m > 0 \<and> \<not> pad_bottom m > 0) \<and>
     \<not> (pad_left m + pad_right m > 0 \<and> \<not> pad_right m > 0) \<and>
     (\<forall>x. unpad_output x m =
        (Inr (map (map (\<lambda>img.
           map (\<lambda>row. if pad_left m + pad_right m > 0
                       then py_slice (Some (pad_left m)) (Some (- pad_right m)) row else row)
             (if pad_top m + pad_bottom m > 0
              then py_slice (Some (pad_top m)) (Some (- pad_bottom m)) img else img))) x), m))"
proof -
  have a: "pad_top m \<le> pad_bottom m" "pad_left m \<le> pad_right m"
    and b: "0 < pad_height m \<longrightarrow> 0 < pad_bottom m" "0 < pad_width m \<longrightarrow> 0 < pad_right m"
    unfolding assms by (simp_all add: init_pads) linarith+
  have c: "0 < pad_top m + pad_bottom m \<Longrightarrow> 0 < pad_bottom m"
    "0 < pad_left m + pad_right m \<Longrightarrow> 0 < pad_right m"
    using a by linarith+
  have "\<And>x. unpad_output x m =
        (Inr (map (map (\<lambda>img.
           map (\<lambda>row. if pad_left m + pad_right m > 0
                       then py_slice (Some (pad_left m)) (Some (- pad_right m)) row else row)
             (if pad_top m + pad_bottom m > 0
              then py_slice (Some (pad_top m)) (Some (- pad_bottom m)) img else img))) x), m)"
    unfolding unpad_output_eq using c by (simp cong: if_cong)
  then show ?thesis using a b c by blast
qed

theorem fallback_slices_unreachable_witness:
  "pad_top (init zero_blocks 100 130 4 8 ()) \<le> pad_bottom (init zero_blocks 100 130 4 8 ()) \<and>
   pad_left (init zero_blocks 100 130 4 8 ()) \<le> pad_right (init zero_blocks 100 130 4 8 ()) \<and>
   0 < pad_height (init zero_blocks 100 130 4 8 ()) \<and>
   0 < pad_bottom (init zero_blocks 100 130 4 8 ())"
proof -
  have "0 < pad_height (init zero_blocks 100 130 4 8 ())"
    by (simp add: init_pads init_padded)
  then show ?thesis
    using fallback_slices_unreachable [of "init zero_blocks 100 130 4 8 ()" zero_blocks 100 130 4 8 "()"]
    by simp
qed

section \<open>What the methods leave as it was\<close>

text \<open>
  A method returns the object with at most the state of its modules changed: every step
  of a method either only reads the object or is a call of one of its modules.
\<close>

lemma returns_frame: "\<exists>w'. snd (returns a self) = self\<lparr>modules_state := w'\<rparr>"
  by (rule exI [of _ "modules_state self"]) (simp add: returns_def)

lemma of_result_frame: "\<exists>w'. snd (of_result r self) = self\<lparr>modules_state := w'\<rparr>"
  by (rule exI [of _ "modules_state self"]) (simp add: of_result_def)

lemma call_module_frame: "\<exists>w'. snd (call_module f a self) = self\<lparr>modules_state := w'\<rparr>"
  by (cases "f self a (modules_state self)") (auto simp: call_module_def)

lemma with_self_frame:
  assumes "\<And>self' self. \<exists>w'. snd (f self' self) = self\<lparr>modules_state := w'\<rparr>"
  shows "\<exists>w'. snd (with_self f self) = self\<lparr>modules_state := w'\<rparr>"
  using assms by (simp add: with_self_def)

lemma and_then_frame:
  assumes f: "\<And>self. \<exists>w'. snd (f self) = self\<lparr>modules_state := w'\<rparr>"
    and g: "\<And>a self. \<exists>w'. snd (g a self) = self\<lparr>modules_state := w'\<rparr>"
  shows "\<exists>w'. snd (and_then f g self) = self\<lparr>modules_state := w'\<rparr>"
proof -
  obtain r self1 where fs: "f self = (r, self1)" by (cases "f self")
  from f [of self] fs obtain w1 where s1: "self1 = self\<lparr>modules_state := w1\<rparr>" by auto
  show ?thesis
  proof (cases r)
    case (Inl e)
    then show ?thesis using fs s1 by (auto simp: and_then_def)
  next
    case (Inr a)
    from g [of a self1] obtain w2 where "snd (g a self1) = self1\<lparr>modules_state := w2\<rparr>" ..
    then have "snd (g a self1) = self\<lparr>modules_state := w2\<rparr>" using s1 by simp
    then show ?thesis using fs Inr by (auto simp: and_then_def)
  qed
qed

lemmas frame_intros =
  and_then_frame with_self_frame returns_frame of_result_frame call_module_frame

lemma pad_input_frame: "\<exists>w'. snd (pad_input x self) = self\<lparr>modules_state := w'\<rparr>"
  unfolding pad_input_def by (intro frame_intros)

lemma unpad_output_frame: "\<exists>w'. snd (unpad_output x self) = self\<lparr>modules_state := w'\<rparr>"
  unfolding unpad_output_def Let_def by (intro frame_intros)

lemma encode_frame: "\<exists>w'. snd (encode x self) = self\<lparr>modules_state := w'\<rparr>"
  unfolding encode_def Let_def by (intro frame_intros pad_input_frame)

lemma decode_frame: "\<exists>w'. snd (decode z self) = self\<lparr>modules_state := w'\<rparr>"
  unfolding decode_def by (intro frame_intros unpad_output_frame)

lemma forward_frame: "\<exists>w'. snd (forward x self) = self\<lparr>modules_state := w'\<rparr>"
  unfolding forward_def case_prod_beta by (intro frame_intros encode_frame decode_frame)

lemma plan_of_frame:
  assumes "\<exists>w'. self' = self\<lparr>modules_state := w'\<rparr>"
  shows "shape_plan self' = shape_plan self \<and> latent_configuration self' = latent_configuration self"
  using assms by (auto simp: shape_plan_def latent_configuration_def)

text \<open>
  Claim C8. The shape plan and the latent configuration are read only after
  construction: whatever the object and the argument, and whether the call returns or
  raises, \<open>pad_input\<close>, \<open>unpad_output\<close>, \<open>encode\<close>, \<open>decode\<close> and \<open>forward\<close> leave
  \<open>padded_height\<close>, \<open>padded_width\<close>, \<open>pad_top\<close>, \<open>pad_bottom\<close>, \<open>pad_left\<close>,
  \<open>pad_right\<close>, \<open>post_cnn_height\<close>, \<open>post_cnn_width\<close>, \<open>post_cnn_encoder_size\<close>,
  \<open>n_distributions\<close>, \<open>n_categories\<close> and \<open>latent_size\<close> as they were.
\<close>

theorem plan_read_only:
  "(shape_plan (snd (pad_input x self)) = shape_plan self \<and>
    latent_configuration (snd (pad_input x self)) = latent_configuration self) \<and>
   (shape_plan (snd (unpad_output x self)) = shape_plan self \<and>
    latent_configuration (snd (unpad_output x self)) = latent_configuration self) \<and>
   (shape_plan (snd (encode x self)) = shape_plan self \<and>
    latent_configuration (snd (encode x self)) = latent_configuration self) \<and>
   (shape_plan (snd (decode z self)) = shape_plan self \<and>
    latent_configuration (snd (decode z self)) = latent_configuration self) \<and>
   (shape_plan (snd (forward x self)) = shape_plan self \<and>
    latent_configuration (snd (forward x self)) = latent_configuration self)"
  by (intro conjI plan_of_frame [THEN conjunct1] plan_of_frame [THEN conjunct2]
      pad_input_frame unpad_output_frame encode_frame decode_frame forward_frame)

section \<open>The shapes through the pipeline\<close>

subsection \<open>The operations of the tensor library\<close>

lemma shape2_iff:
  "shape2 x r c \<longleftrightarrow> int (length x) = r \<and> (\<forall>row\<in>set x. int (length row) = c)"
  by (simp add: shape2_def list_all_iff)

lemma pool_size_same:
  assumes "0 < k"
  shows "pool_size k k n = n div k"
proof -
  have "(n + (- 1) * k) div k = - 1 + n div k"
    by (rule div_mult_self1) (use assms in simp)
  moreover have "n + (- 1) * k = n - k" by simp
  ultimately have "(n - k) div k = n div k - 1" by simp
  then show ?thesis by (simp add: pool_size_def)
qed

lemma pool_image_shape:
  "int (length (pool_image k s img)) = max 0 (pool_size k s (int (length img)))"
  "\<forall>row\<in>set (pool_image k s img). int (length row) = max 0 (pool_size k s (width img))"
  by (auto simp: pool_image_def)

lemma MaxPool2d_shape:
  assumes "shape4 x b c h w" and "0 < c" and "0 < k" and "k \<le> h" and "k \<le> w"
  shows "\<exists>y. MaxPool2d k k x = Inr y \<and> shape4 y b c (h div k) (w div k)"
proof -
  have "0 < h div k" "0 < w div k"
    using assms(3-5) by (simp_all add: pos_imp_zdiv_pos_iff)
  then have hk: "1 \<le> h div k" "1 \<le> w div k"
    by linarith+
  have hpos: "0 < h" using assms(3,4) by simp
  have "\<forall>xc\<in>set x. \<not> (xc = [] \<or>
           list_ex (\<lambda>img. pool_size k k (int (length img)) < 1 \<or>
                           pool_size k k (width img) < 1) xc)"
  proof
    fix xc assume xc: "xc \<in> set x"
    have ne: "xc \<noteq> []" using assms(1,2) xc by (auto simp: shape4_iff)
    have "\<forall>img\<in>set xc. \<not> (pool_size k k (int (length img)) < 1 \<or>
                           pool_size k k (width img) < 1)"
    proof
      fix img assume img: "img \<in> set xc"
      have l: "int (length img) = h" and r: "\<forall>row\<in>set img. int (length row) = w"
        using assms(1) xc img by (simp_all add: shape4_iff)
      have "width img = w" using l hpos r by (rule width_shape)
      then show "\<not> (pool_size k k (int (length img)) < 1 \<or> pool_size k k (width img) < 1)"
        using l hk by (simp add: pool_size_same [OF assms(3)])
    qed
    then show "\<not> (xc = [] \<or>
           list_ex (\<lambda>img. pool_size k k (int (length img)) < 1 \<or>
                           pool_size k k (width img) < 1) xc)"
      using ne by (simp add: list_ex_iff)
  qed
  then have ok: "\<not> list_ex (\<lambda>xc. xc = [] \<or>
           list_ex (\<lambda>img. pool_size k k (int (length img)) < 1 \<or>
                           pool_size k k (width img) < 1) xc) x"
    by (simp add: list_ex_iff)
  have "shape4 (map (map (pool_image k k)) x) b c (h div k) (w div k)"
    using assms(1)
  proof (rule shape4_map_images)
    fix img :: "real list list"
    assume l: "int (length img) = h" and r: "\<forall>row\<in>set img. int (length row) = w"
    have wd: "width img = w" using l hpos r by (rule width_shape)
    show "int (length (pool_image k k img)) = h div k \<and>
          (\<forall>row\<in>set (pool_image k k img). int (length row) = w div k)"
      using pool_image_shape [of k k img] hk
      by (simp add: l wd pool_size_same [OF assms(3)])
  qed
  then show ?thesis using ok assms(3) by (simp add: MaxPool2d_def)
qed

lemma length_concat_uniform:
  "\<forall>xs\<in>set xss. length xs = n \<Longrightarrow> length (concat xss) = length xss * n"
  by (induction xss) simp_all

lemma Flatten_shape:
  assumes "shape4 x b c h w" and "0 \<le> h" and "0 \<le> w"
  shows "shape2 (Flatten x) b (c * h * w)"
  unfolding shape2_iff
proof (intro conjI ballI)
  show "int (length (Flatten x)) = b"
    using assms by (simp add: Flatten_def shape4_iff)
next
  fix row assume "row \<in> set (Flatten x)"
  then obtain xc where xc: "xc \<in> set x" "row = concat (map concat xc)"
    by (auto simp: Flatten_def)
  have c: "int (length xc) = c"
    and i: "\<forall>img\<in>set xc. int (length img) = h \<and> (\<forall>r\<in>set img. int (length r) = w)"
    using assms xc(1) by (simp_all add: shape4_iff)
  have "\<forall>v\<in>set (map concat xc). length v = nat h * nat w"
  proof
    fix v assume "v \<in> set (map concat xc)"
    then obtain img where img: "img \<in> set xc" "v = concat img" by auto
    have "\<forall>r\<in>set img. length r = nat w" using i img(1) by fastforce
    then have "length (concat img) = length img * nat w" by (rule length_concat_uniform)
    moreover have "length img = nat h" using i img(1) by fastforce
    ultimately show "length v = nat h * nat w" using img(2) by simp
  qed
  then have "length (concat (map concat xc)) = length (map concat xc) * (nat h * nat w)"
    by (rule length_concat_uniform)
  then have "int (length row) = int (length xc) * (int (nat h) * int (nat w))"
    using xc(2) by (simp add: of_nat_mult)
  then show "int (length row) = c * h * w"
    using c assms(2,3) by simp
qed

lemma length_chunk:
  assumes "i < r" and "length xs = r * c"
  shows "length (take c (drop (i * c) xs)) = c"
proof -
  have "Suc i * c \<le> r * c"
    using assms(1) by (intro mult_le_mono1) simp
  then have "i * c + c \<le> length xs" using assms(2) by simp
  then show ?thesis by simp
qed

lemma numel_shape2:
  assumes "shape2 x r c" and "0 \<le> c"
  shows "int (length (concat x)) = r * c"
proof -
  have "\<forall>row\<in>set x. length row = nat c"
    using assms by (fastforce simp: shape2_iff)
  then have "length (concat x) = length x * nat c"
    by (rule length_concat_uniform)
  then show ?thesis using assms by (simp add: shape2_iff)
qed

lemma view2_shape:
  assumes "shape2 x r c" and "0 \<le> c" and "0 \<le> r'" and "0 \<le> c'" and "r' * c' = r * c"
  shows "\<exists>y. view2 r' c' x = Inr y \<and> shape2 y r' c'"
proof -
  have n: "int (length (concat x)) = r' * c'"
    using numel_shape2 [OF assms(1,2)] assms(5) by simp
  then have "int (length (concat x)) = int (nat r' * nat c')"
    using assms(3,4) by simp
  then have len: "length (concat x) = nat r' * nat c'"
    by (simp only: of_nat_eq_iff)
  have "shape2 (map (\<lambda>i. take (nat c') (drop (i * nat c') (concat x))) [0..<nat r']) r' c'"
    unfolding shape2_iff
  proof (intro conjI ballI)
    show "int (length (map (\<lambda>i. take (nat c') (drop (i * nat c') (concat x))) [0..<nat r'])) = r'"
      using assms(3) by simp
  next
    fix row assume "row \<in> set (map (\<lambda>i. take (nat c') (drop (i * nat c') (concat x))) [0..<nat r'])"
    then obtain i where i: "i < nat r'" "row = take (nat c') (drop (i * nat c') (concat x))"
      by auto
    have "length row = nat c'"
      unfolding i(2) using i(1) len by (rule length_chunk)
    then show "int (length row) = c'" using assms(4) by simp
  qed
  then show ?thesis
    using n assms(3,4) by (simp add: view2_def Let_def)
qed

lemma Softmax_shape: "shape2 x r c \<Longrightarrow> shape2 (Softmax x) r c"
  by (simp add: shape2_iff Softmax_def)

lemma map2_same: "map2 f (map g xs) (map h xs) = map (\<lambda>x. f (g x) (h x)) xs"
  by (induction xs) simp_all

lemma smoothing_eq:
  "tensor_add (scalar_mul a x) (scalar_div (scalar_mul e (ones_like x)) n) =
     map (map (\<lambda>p. a * p + e * 1 / of_int n)) x"
proof -
  have "tensor_add (scalar_mul a x) (scalar_div (scalar_mul e (ones_like x)) n) =
      map2 (map2 (+)) (map (map (\<lambda>v. a * v)) x) (map (map (\<lambda>v. e * 1 / of_int n)) x)"
    by (simp add: tensor_add_def scalar_mul_def scalar_div_def ones_like_def o_def)
  also have "\<dots> = map (\<lambda>row. map2 (+) (map (\<lambda>v. a * v) row) (map (\<lambda>v. e * 1 / of_int n) row)) x"
    by (rule map2_same)
  also have "\<dots> = map (map (\<lambda>p. a * p + e * 1 / of_int n)) x"
    by (simp only: map2_same)
  finally show ?thesis .
qed

lemma Unflatten_shape:
  assumes "shape2 x b (c * h * w)" and "0 \<le> c" and "0 \<le> h" and "0 \<le> w"
  shows "\<exists>y. Unflatten (c, h, w) x = Inr y \<and> shape4 y b c h w"
proof -
  have rows: "\<forall>v\<in>set x. int (length v) = c * h * w" and len: "int (length x) = b"
    using assms(1) by (simp_all add: shape2_iff)
  have chunk: "length (take (nat w) (drop ((ci * nat h + i) * nat w) v)) = nat w"
    if "v \<in> set x" and "ci < nat c" and "i < nat h" for v ci i
  proof -
    have "int (length v) = int (nat c * nat h * nat w)"
      using rows that(1) assms(2-4) by simp
    then have l: "length v = (nat c * nat h) * nat w"
      by (simp only: of_nat_eq_iff)
    have "Suc ci * nat h \<le> nat c * nat h"
      using that(2) by (intro mult_le_mono1) simp
    then have "ci * nat h + i < nat c * nat h"
      using that(3) by simp
    then show ?thesis using l by (rule length_chunk)
  qed
  have "shape4 (map (\<lambda>v. map (\<lambda>ci. map (\<lambda>i.
      take (nat w) (drop ((ci * nat h + i) * nat w) v)) [0..<nat h]) [0..<nat c]) x) b c h w"
    unfolding shape4_iff using len assms(2-4) chunk by auto
  moreover have "\<not> list_ex (\<lambda>v. int (length v) \<noteq> c * h * w) x"
    using rows by (simp add: list_ex_iff)
  ultimately show ?thesis
    using assms(2-4) by (simp add: Unflatten_def)
qed

lemma Sigmoid_shape: "shape4 x b c h w \<Longrightarrow> shape4 (Sigmoid x) b c h w"
  by (simp add: shape4_iff Sigmoid_def)

lemma chunks_Suc:
  "map (\<lambda>i. take c (drop (i * c) flat)) [0..<Suc r] =
     take c flat # map (\<lambda>i. take c (drop (i * c) (drop c flat))) [0..<r]"
proof -
  have "[0..<Suc r] = 0 # map Suc [0..<r]"
    by (simp only: upt_conv_Cons zero_less_Suc map_Suc_upt)
  then have "map (\<lambda>i. take c (drop (i * c) flat)) [0..<Suc r] =
      take c flat # map (\<lambda>i. take c (drop (Suc i * c) flat)) [0..<r]"
    by (simp add: o_def del: upt_Suc)
  moreover have "drop (Suc i * c) flat = drop (i * c) (drop c flat)" for i
    by (simp add: add.commute)
  ultimately show ?thesis by simp
qed

lemma concat_chunks:
  "length flat = r * c \<Longrightarrow> concat (map (\<lambda>i. take c (drop (i * c) flat)) [0..<r]) = flat"
proof (induction r arbitrary: flat)
  case 0
  then show ?case by simp
next
  case (Suc r)
  have "length (drop c flat) = r * c" using Suc.prems by simp
  then have "concat (map (\<lambda>i. take c (drop (i * c) (drop c flat))) [0..<r]) = drop c flat"
    by (rule Suc.IH)
  then show ?case by (simp only: chunks_Suc concat.simps append_take_drop_id)
qed

lemma rechunk_rows:
  "\<forall>row\<in>set x. length row = c \<Longrightarrow>
     map (\<lambda>i. take c (drop (i * c) (concat x))) [0..<length x] = x"
proof (induction x)
  case Nil
  then show ?case by simp
next
  case (Cons row xs)
  have "map (\<lambda>i. take c (drop (i * c) (concat xs))) [0..<length xs] = xs"
    using Cons by simp
  moreover have "take c (concat (row # xs)) = row" "drop c (concat (row # xs)) = concat xs"
    using Cons.prems by simp_all
  ultimately have "map (\<lambda>i. take c (drop (i * c) (concat (row # xs)))) [0..<Suc (length xs)] =
      row # xs"
    by (simp only: chunks_Suc)
  then show ?case by (simp only: length_Cons)
qed

lemma view2_cong: "concat x = concat y \<Longrightarrow> view2 r c x = view2 r c y"
  by (simp add: view2_def)

lemma view2_concat:
  assumes "view2 r c x = Inr y"
  shows "concat y = concat x"
proof -
  from assms have r: "0 \<le> r" "0 \<le> c" "r * c = int (length (concat x))"
    and y: "y = map (\<lambda>i. take (nat c) (drop (i * nat c) (concat x))) [0..<nat r]"
    by (auto simp: view2_def Let_def split: if_splits)
  have "int (length (concat x)) = int (nat r * nat c)"
    using r by simp
  then have "length (concat x) = nat r * nat c"
    by (simp only: of_nat_eq_iff)
  then show ?thesis unfolding y by (rule concat_chunks)
qed

lemma view2_same:
  assumes "shape2 x r c" and "0 \<le> c"
  shows "view2 r c x = Inr x"
proof -
  have rows: "\<forall>row\<in>set x. length row = nat c" and len: "nat r = length x" "0 \<le> r"
    using assms by (auto simp: shape2_iff)
  have "int (length (concat x)) = r * c"
    using assms by (rule numel_shape2)
  moreover have "map (\<lambda>i. take (nat c) (drop (i * nat c) (concat x))) [0..<nat r] = x"
    unfolding len(1) using rows by (rule rechunk_rows)
  ultimately show ?thesis using assms(2) len(2) by (simp add: view2_def)
qed

lemma view2_back:
  assumes "shape2 D r c" and "0 \<le> c" and "view2 r' c' D = Inr ds"
  shows "view2 r c ds = Inr D"
proof -
  have "concat ds = concat D" using assms(3) by (rule view2_concat)
  then have "view2 r c ds = view2 r c D" by (rule view2_cong)
  then show ?thesis using view2_same [OF assms(1,2)] by simp
qed

subsection \<open>Softmax and the smoothing\<close>

lemma sum_exp_nonneg: "0 \<le> sum_list (map exp (row :: real list))"
  by (induction row) (simp_all add: add_nonneg_nonneg)

lemma sum_exp_pos: "row \<noteq> [] \<Longrightarrow> 0 < sum_list (map exp (row :: real list))"
  using sum_exp_nonneg by (cases row) (simp_all add: add_pos_nonneg)

lemma exp_le_sum_exp: "a \<in> set row \<Longrightarrow> exp a \<le> sum_list (map exp (row :: real list))"
proof (induction row)
  case Nil
  then show ?case by simp
next
  case (Cons b row)
  have s: "0 \<le> sum_list (map exp row)" by (rule sum_exp_nonneg)
  have b: "0 < exp b" by simp
  show ?case
  proof (cases "a = b")
    case True
    then show ?thesis using s by simp
  next
    case False
    then have "exp a \<le> sum_list (map exp row)" using Cons by simp
    then show ?thesis using b by (simp add: add_pos_nonneg add_increasing)
  qed
qed

lemma sum_list_map_divide:
  "sum_list (map (\<lambda>a. f a / (c :: real)) xs) = sum_list (map f xs) / c"
  by (induction xs) (simp_all add: add_divide_distrib)

lemma sum_list_affine:
  "sum_list (map (\<lambda>p. a * p + (e :: real)) q) = a * sum_list q + real (length q) * e"
  by (induction q) (simp_all add: algebra_simps)

lemma Softmax_row:
  assumes "row \<in> set (Softmax X)"
  shows "(row \<noteq> [] \<longrightarrow> sum_list row = 1) \<and> (\<forall>p\<in>set row. 0 < p \<and> p \<le> 1)"
proof -
  from assms obtain l where l: "l \<in> set X"
    and row: "row = map (\<lambda>a. exp a / sum_list (map exp l)) l"
    by (auto simp: Softmax_def)
  have "sum_list row = 1" if "row \<noteq> []"
  proof -
    from that have "l \<noteq> []" using row by simp
    then have "0 < sum_list (map exp l)" by (rule sum_exp_pos)
    then show ?thesis unfolding row by (simp add: sum_list_map_divide)
  qed
  moreover have "0 < p \<and> p \<le> 1" if "p \<in> set row" for p
  proof -
    from that obtain a where a: "a \<in> set l" and p: "p = exp a / sum_list (map exp l)"
      using row by auto
    have "l \<noteq> []" using a by auto
    then have pos: "0 < sum_list (map exp l)" by (rule sum_exp_pos)
    have "exp a \<le> sum_list (map exp l)" using a by (rule exp_le_sum_exp)
    then show ?thesis using pos by (simp add: p)
  qed
  ultimately show ?thesis by blast
qed

lemma smoothed_row:
  fixes q :: "real list" and n :: int
  assumes "0 < n" and "int (length q) = n" and "sum_list q = 1"
    and "\<forall>p\<in>set q. 0 < p \<and> p \<le> 1"
  shows "sum_list (map (\<lambda>p. 0.99 * p + 0.01 * 1 / of_int n) q) = 1"
    and "\<forall>p\<in>set (map (\<lambda>p. 0.99 * p + 0.01 * 1 / of_int n) q).
           0.01 / of_int n \<le> p \<and> p \<le> 0.99 + 0.01 / of_int n"
proof -
  have n: "real (length q) = of_int n" "(0 :: real) < of_int n"
    using assms(1,2) by auto
  have "sum_list (map (\<lambda>p. 0.99 * p + 0.01 * 1 / of_int n) q) =
      0.99 * sum_list q + real (length q) * (0.01 * 1 / of_int n)"
    by (rule sum_list_affine)
  also have "\<dots> = 1" using n by (simp add: assms(3))
  finally show "sum_list (map (\<lambda>p. 0.99 * p + 0.01 * 1 / of_int n) q) = 1" .
  show "\<forall>p\<in>set (map (\<lambda>p. 0.99 * p + 0.01 * 1 / of_int n) q).
           0.01 / of_int n \<le> p \<and> p \<le> 0.99 + 0.01 / of_int n"
    using assms(4) by auto
qed

lemma smoothed_rows:
  assumes "shape2 X r c" and "0 < c"
    and "D = tensor_add (scalar_mul 0.99 (Softmax X))
               (scalar_div (scalar_mul 0.01 (ones_like (Softmax X))) c)"
  shows "shape2 D r c"
    and "\<forall>row\<in>set D. sum_list row = 1 \<and>
           (\<forall>p\<in>set row. 0.01 / of_int c \<le> p \<and> p \<le> 0.99 + 0.01 / of_int c)"
proof -
  have D: "D = map (map (\<lambda>p. 0.99 * p + 0.01 * 1 / of_int c)) (Softmax X)"
    unfolding assms(3) by (rule smoothing_eq)
  have S: "shape2 (Softmax X) r c" using assms(1) by (rule Softmax_shape)
  then show "shape2 D r c" by (simp add: D shape2_iff)
  show "\<forall>row\<in>set D. sum_list row = 1 \<and>
           (\<forall>p\<in>set row. 0.01 / of_int c \<le> p \<and> p \<le> 0.99 + 0.01 / of_int c)"
  proof
    fix row assume "row \<in> set D"
    then obtain q where q: "q \<in> set (Softmax X)"
      and row: "row = map (\<lambda>p. 0.99 * p + 0.01 * 1 / of_int c) q"
      unfolding D by auto
    have len: "int (length q) = c" using S q by (simp add: shape2_iff)
    then have "q \<noteq> []" using assms(2) by auto
    then have "sum_list q = 1" and ent: "\<forall>p\<in>set q. 0 < p \<and> p \<le> 1"
      using Softmax_row [OF q] by simp_all
    then show "sum_list row = 1 \<and>
           (\<forall>p\<in>set row. 0.01 / of_int c \<le> p \<and> p \<le> 0.99 + 0.01 / of_int c)"
      unfolding row using smoothed_row [OF assms(2) len] by blast
  qed
qed

subsection \<open>The methods on a model built by the constructor\<close>

text \<open>
  The state of the modules is the only attribute that a call changes, and the
  constructor takes it as its last argument: a model whose modules have moved on is
  the model built with their new state.
\<close>

lemma crop_length:
  assumes "0 \<le> lo" and "0 \<le> hi" and "lo + hi \<le> int (length xs)"
  shows "int (length (if lo + hi > 0
          then (if hi > 0 then py_slice (Some lo) (Some (- hi)) xs
                else py_slice (Some lo) None xs)
          else xs)) = int (length xs) - lo - hi"
  using assms by (auto simp: py_slice_def slice_index_def Let_def)

lemma init_update:
  "(init B h w nd nc s)\<lparr>modules_state := s'\<rparr> = init B h w nd nc s'"
  by (simp add: init_def Let_def)

lemma pad_input_shape:
  assumes "0 < h" and "0 < w" and "m = init B h w nd nc s" and "shape4 x b 1 h w"
  shows "\<exists>y. pad_input x m = (Inr y, m) \<and> shape4 y b 1 (padded_height m) (padded_width m)"
proof -
  have nn: "0 \<le> pad_left m" "0 \<le> pad_right m" "0 \<le> pad_top m" "0 \<le> pad_bottom m"
    unfolding assms(3) by (rule init_pads_nonneg)+
  obtain y where y: "F_pad (pad_left m, pad_right m, pad_top m, pad_bottom m) 0 x = Inr y"
    and sy: "shape4 y b 1 (h + pad_top m + pad_bottom m) (w + pad_left m + pad_right m)"
    using F_pad_shape [OF assms(4) assms(1) nn] by blast
  have p: "pad_input x m = (Inr y, m)"
    using y by (simp add: pad_input_def with_self_def of_result_def)
  have "h + pad_top m + pad_bottom m = padded_height m"
    "w + pad_left m + pad_right m = padded_width m"
    unfolding assms(3) using init_pads_sum [of B h w nd nc s] by simp_all
  then have "shape4 y b 1 (padded_height m) (padded_width m)"
    using sy by simp
  then show ?thesis using p by blast
qed

lemma unpad_output_shape:
  assumes "m = init B h w nd nc s" and "shape4 y b c (padded_height m) (padded_width m)"
    and "0 \<le> h" and "0 \<le> w"
  shows "\<exists>z. unpad_output y m = (Inr z, m) \<and> shape4 z b c h w"
proof -
  have nn: "0 \<le> pad_left m" "0 \<le> pad_right m" "0 \<le> pad_top m" "0 \<le> pad_bottom m"
    unfolding assms(1) by (rule init_pads_nonneg)+
  have sums: "pad_top m + pad_bottom m = padded_height m - h"
    "pad_left m + pad_right m = padded_width m - w"
    unfolding assms(1) by (rule init_pads_sum)+
  let ?rows = "\<lambda>img. if pad_top m + pad_bottom m > 0
           then (if pad_bottom m > 0
                 then py_slice (Some (pad_top m)) (Some (- pad_bottom m)) img
                 else py_slice (Some (pad_top m)) None img)
           else img"
  let ?cols = "\<lambda>row. if pad_left m + pad_right m > 0
                    then (if pad_right m > 0
                          then py_slice (Some (pad_left m)) (Some (- pad_right m)) row
                          else py_slice (Some (pad_left m)) None row)
                    else row"
  have "shape4 (map (map (\<lambda>img. map ?cols (?rows img))) y) b c h w"
    using assms(2)
  proof (rule shape4_map_images)
    fix img :: "real list list"
    assume l: "int (length img) = padded_height m"
      and r: "\<forall>row\<in>set img. int (length row) = padded_width m"
    have "h \<le> padded_height m" unfolding assms(1) by (rule init_padded_height)
    then have "pad_top m + pad_bottom m \<le> int (length img)"
      using sums l assms(3) by simp
    then have "int (length (?rows img)) = int (length img) - pad_top m - pad_bottom m"
      by (rule crop_length [OF nn(3,4)])
    then have a: "int (length (map ?cols (?rows img))) = h"
      using sums l by simp
    have sub: "set (?rows img) \<subseteq> set img"
      by (auto simp: py_slice_def Let_def dest: in_set_takeD in_set_dropD)
    have b: "int (length (?cols row)) = w" if "row \<in> set (?rows img)" for row
    proof -
      have lr: "int (length row) = padded_width m" using that sub r by blast
      have "w \<le> padded_width m" unfolding assms(1) by (rule init_padded_width)
      then have "pad_left m + pad_right m \<le> int (length row)"
        using sums lr assms(4) by simp
      then have "int (length (?cols row)) = int (length row) - pad_left m - pad_right m"
        by (rule crop_length [OF nn(1,2)])
      then show ?thesis using sums lr by simp
    qed
    show "int (length (map ?cols (?rows img))) = h \<and>
        (\<forall>row\<in>set (map ?cols (?rows img)). int (length row) = w)"
      using a b by auto
  qed
  then show ?thesis by (simp add: unpad_output_eq)
qed

lemma contract_CNNLayer:
  assumes "shape_contract B" and "0 < cin" and "0 < cout" and "0 < h" and "0 < w"
    and "shape4 x b cin h w"
  shows "\<exists>y s'. CNNLayer B cin cout 3 x s = (Inr y, s') \<and> shape4 y b cout h w"
  using assms unfolding shape_contract_def by metis

lemma contract_DeCNNLayer:
  assumes "shape_contract B" and "0 < cin" and "0 < cout" and "0 < k" and "0 < h" and "0 < w"
    and "shape4 x b cin h w"
  shows "\<exists>y s'. DeCNNLayer B cin cout k k 0 x s = (Inr y, s') \<and> shape4 y b cout (h * k) (w * k)"
  using assms unfolding shape_contract_def by metis

lemma contract_MLP:
  assumes "shape_contract B" and "0 < din" and "0 < dout" and "shape2 x b din"
  shows "\<exists>y s'. MLP B depth din dh dout x s = (Inr y, s') \<and> shape2 y b dout"
  using assms unfolding shape_contract_def by metis

lemma contract_STMNsampler:
  assumes "shape_contract B" and "0 < c" and "shape2 x r c"
  shows "\<exists>y s'. STMNsampler B x s = (Inr y, s') \<and> shape2 y r c"
  using assms unfolding shape_contract_def by metis

lemma encoder_eq:
  "encoder (init B h w nd nc s) = (\<lambda>x.
     and_then (CNNLayer B 1 64 3 x) (\<lambda>x.
     and_then (of_result (MaxPool2d 8 8 x)) (\<lambda>x.
     and_then (CNNLayer B 64 256 3 x) (\<lambda>x.
     and_then (of_result (MaxPool2d 4 4 x)) (\<lambda>x.
     and_then (CNNLayer B 256 nd 3 x) (\<lambda>x.
     and_then (of_result (MaxPool2d 2 2 x)) (\<lambda>x.
     and_then (returns (Flatten x)) (\<lambda>x.
     MLP B 3 (post_cnn_encoder_size (init B h w nd nc s)) (nd * nc) (nd * nc) x))))))))"
  by (simp add: init_def Let_def)

lemma decoder_eq:
  "decoder (init B h w nd nc s) = (\<lambda>x.
     and_then (MLP B 3 (nd * nc) (nd * nc) (post_cnn_encoder_size (init B h w nd nc s)) x) (\<lambda>x.
     and_then (of_result (Unflatten (nd, post_cnn_height (init B h w nd nc s),
                                     post_cnn_width (init B h w nd nc s)) x)) (\<lambda>x.
     and_then (DeCNNLayer B nd 256 2 2 0 x) (\<lambda>x.
     and_then (DeCNNLayer B 256 64 4 4 0 x) (\<lambda>x.
     and_then (DeCNNLayer B 64 1 8 8 0 x) (\<lambda>x.
     returns (Sigmoid x)))))))"
  by (simp add: init_def Let_def)

lemma post_cnn_pos:
  assumes "0 < h" and "0 < w"
  shows "0 < post_cnn_height (init B h w nd nc s)" "0 < post_cnn_width (init B h w nd nc s)"
proof -
  have "h \<le> padded_height (init B h w nd nc s)"
    by (rule init_padded_height(3))
  moreover have "post_cnn_height (init B h w nd nc s) * 64 = padded_height (init B h w nd nc s)"
    by (rule init_padded_height(4))
  ultimately have "0 < post_cnn_height (init B h w nd nc s) * 64"
    using assms(1) by simp
  then show "0 < post_cnn_height (init B h w nd nc s)" by simp
  have "w \<le> padded_width (init B h w nd nc s)"
    by (rule init_padded_width(3))
  moreover have "post_cnn_width (init B h w nd nc s) * 64 = padded_width (init B h w nd nc s)"
    by (rule init_padded_width(4))
  ultimately have "0 < post_cnn_width (init B h w nd nc s) * 64"
    using assms(2) by simp
  then show "0 < post_cnn_width (init B h w nd nc s)" by simp
qed

lemma stage_sizes:
  fixes p :: int
  assumes "0 < p"
  shows "0 < p * 64" "8 \<le> p * 64" "p * 64 div 8 = p * 8"
    and "0 < p * 8" "4 \<le> p * 8" "p * 8 div 4 = p * 2"
    and "0 < p * 2" "2 \<le> p * 2" "p * 2 div 2 = p"
    and "p * 2 * 4 = p * 8" "p * 8 * 8 = p * 64"
  using assms by simp_all

lemma encoder_shape:
  assumes c: "shape_contract B" and "0 < h" and "0 < w" and nd: "0 < nd" and nc: "0 < nc"
    and m: "m = init B h w nd nc s0"
    and x: "shape4 x b 1 (padded_height m) (padded_width m)"
  shows "\<exists>y s'. encoder m x s = (Inr y, s') \<and> shape2 y b (nd * nc)"
proof -
  define ph where "ph = post_cnn_height m"
  define pw where "pw = post_cnn_width m"
  have ph: "0 < ph" and pw: "0 < pw"
    unfolding ph_def pw_def m using assms(2,3) by (rule post_cnn_pos)+
  have H: "padded_height m = ph * 64" and W: "padded_width m = pw * 64"
    unfolding ph_def pw_def m
    by (simp_all only: init_padded_height(4) init_padded_width(4))
  have size: "post_cnn_encoder_size m = ph * pw * nd"
    unfolding ph_def pw_def m by (simp only: init_pads)
  note hs = stage_sizes [OF ph] and ws = stage_sizes [OF pw]
  have x': "shape4 x b 1 (ph * 64) (pw * 64)" using x H W by simp
  obtain y1 s1 where y1: "CNNLayer B 1 64 3 x s = (Inr y1, s1)"
    and sy1: "shape4 y1 b 64 (ph * 64) (pw * 64)"
    using contract_CNNLayer [OF c _ _ hs(1) ws(1) x', of 64 s] by auto
  obtain y2 where y2: "MaxPool2d 8 8 y1 = Inr y2"
    and sy2: "shape4 y2 b 64 (ph * 8) (pw * 8)"
    using MaxPool2d_shape [OF sy1 _ _ hs(2) ws(2)] hs(3) ws(3) by auto
  obtain y3 s3 where y3: "CNNLayer B 64 256 3 y2 s1 = (Inr y3, s3)"
    and sy3: "shape4 y3 b 256 (ph * 8) (pw * 8)"
    using contract_CNNLayer [OF c _ _ hs(4) ws(4) sy2, of 256 s1] by auto
  obtain y4 where y4: "MaxPool2d 4 4 y3 = Inr y4"
    and sy4: "shape4 y4 b 256 (ph * 2) (pw * 2)"
    using MaxPool2d_shape [OF sy3 _ _ hs(5) ws(5)] hs(6) ws(6) by auto
  obtain y5 s5 where y5: "CNNLayer B 256 nd 3 y4 s3 = (Inr y5, s5)"
    and sy5: "shape4 y5 b nd (ph * 2) (pw * 2)"
    using contract_CNNLayer [OF c _ nd hs(7) ws(7) sy4, of s3] by auto
  obtain y6 where y6: "MaxPool2d 2 2 y5 = Inr y6"
    and sy6: "shape4 y6 b nd ph pw"
    using MaxPool2d_shape [OF sy5 nd _ hs(8) ws(8)] hs(9) ws(9) by auto
  have "shape2 (Flatten y6) b (nd * ph * pw)"
    using sy6 ph pw by (intro Flatten_shape) simp_all
  then have sf: "shape2 (Flatten y6) b (ph * pw * nd)"
    by (simp add: mult.commute mult.left_commute)
  have din: "0 < ph * pw * nd" and dout: "0 < nd * nc"
    using ph pw nd nc by simp_all
  obtain y s' where y: "MLP B 3 (ph * pw * nd) (nd * nc) (nd * nc) (Flatten y6) s5 = (Inr y, s')"
    and sy: "shape2 y b (nd * nc)"
    using contract_MLP [OF c din dout sf, of 3 "nd * nc" s5] by auto
  have "encoder m x s = (Inr y, s')"
    unfolding m encoder_eq size [unfolded m]
    by (simp add: and_then_def of_result_def returns_def y1 y2 y3 y4 y5 y6 y)
  then show ?thesis using sy by blast
qed

lemma decoder_shape:
  assumes c: "shape_contract B" and "0 < h" and "0 < w" and nd: "0 < nd" and nc: "0 < nc"
    and m: "m = init B h w nd nc s0"
    and z: "shape2 z b (nd * nc)"
  shows "\<exists>y s'. decoder m z s = (Inr y, s') \<and>
           shape4 y b 1 (padded_height m) (padded_width m)"
proof -
  define ph where "ph = post_cnn_height m"
  define pw where "pw = post_cnn_width m"
  have ph: "0 < ph" and pw: "0 < pw"
    unfolding ph_def pw_def m using assms(2,3) by (rule post_cnn_pos)+
  have H: "padded_height m = ph * 64" and W: "padded_width m = pw * 64"
    unfolding ph_def pw_def m
    by (simp_all only: init_padded_height(4) init_padded_width(4))
  have size: "post_cnn_encoder_size m = ph * pw * nd"
    unfolding ph_def pw_def m by (simp only: init_pads)
  note hs = stage_sizes [OF ph] and ws = stage_sizes [OF pw]
  have din: "0 < nd * nc" and dout: "0 < ph * pw * nd"
    using ph pw nd nc by simp_all
  obtain y1 s1 where y1: "MLP B 3 (nd * nc) (nd * nc) (ph * pw * nd) z s = (Inr y1, s1)"
    and sy1: "shape2 y1 b (ph * pw * nd)"
    using contract_MLP [OF c din dout z, of 3 "nd * nc" s] by auto
  have "shape2 y1 b (nd * ph * pw)"
    using sy1 by (simp add: mult.commute mult.left_commute)
  then obtain y2 where y2: "Unflatten (nd, ph, pw) y1 = Inr y2"
    and sy2: "shape4 y2 b nd ph pw"
    using Unflatten_shape [of y1 b nd ph pw] nd ph pw by auto
  obtain y3 s3 where y3: "DeCNNLayer B nd 256 2 2 0 y2 s1 = (Inr y3, s3)"
    and sy3: "shape4 y3 b 256 (ph * 2) (pw * 2)"
    using contract_DeCNNLayer [OF c nd _ _ ph pw sy2, of 256 2 s1] by auto
  obtain y4 s4 where y4: "DeCNNLayer B 256 64 4 4 0 y3 s3 = (Inr y4, s4)"
    and sy4: "shape4 y4 b 64 (ph * 8) (pw * 8)"
    using contract_DeCNNLayer [OF c _ _ _ hs(7) ws(7) sy3, of 64 4 s3] hs(10) ws(10) by auto
  obtain y5 s5 where y5: "DeCNNLayer B 64 1 8 8 0 y4 s4 = (Inr y5, s5)"
    and sy5: "shape4 y5 b 1 (ph * 64) (pw * 64)"
    using contract_DeCNNLayer [OF c _ _ _ hs(4) ws(4) sy4, of 1 8 s4] hs(11) ws(11) by auto
  have "decoder m z s = (Inr (Sigmoid y5), s5)"
    unfolding m decoder_eq size [unfolded m] ph_def [unfolded m, symmetric]
      pw_def [unfolded m, symmetric]
    by (simp add: and_then_def of_result_def returns_def y1 y2 y3 y4 y5)
  moreover have "shape4 (Sigmoid y5) b 1 (padded_height m) (padded_width m)"
    unfolding H W using sy5 by (rule Sigmoid_shape)
  ultimately show ?thesis by blast
qed

lemma encode_shape:
  assumes c: "shape_contract B" and h: "0 < h" and w: "0 < w" and nd: "0 < nd" and nc: "0 < nc"
    and m: "m = init B h w nd nc s"
    and x: "shape4 x b 1 h w"
  shows "\<exists>sample ds s'. encode x m = (Inr (sample, ds), init B h w nd nc s') \<and>
           shape2 sample b (nd * nc) \<and> shape2 ds b (nd * nc)"
proof -
  have b: "int (length x) = b" using x by (simp add: shape4_iff)
  then have b0: "0 \<le> b" by auto
  obtain xp where xp: "pad_input x (init B h w nd nc s) = (Inr xp, init B h w nd nc s)"
    and sxp: "shape4 xp b 1 (padded_height m) (padded_width m)"
    using pad_input_shape [OF h w m x] unfolding m by blast
  obtain y s1 where y: "encoder (init B h w nd nc s) xp s = (Inr y, s1)"
    and sy: "shape2 y b (nd * nc)"
    using encoder_shape [OF c h w nd nc m sxp, of s] unfolding m by blast
  have "0 \<le> nd * nc" "0 \<le> b * nd" "0 \<le> nc" "b * nd * nc = b * (nd * nc)"
    using nd nc b0 by simp_all
  then obtain X where X: "view2 (b * nd) nc y = Inr X" and sX: "shape2 X (b * nd) nc"
    using view2_shape [OF sy, of "b * nd" nc] by blast
  define D where "D = tensor_add (scalar_mul 0.99 (Softmax X))
               (scalar_div (scalar_mul 0.01 (ones_like (Softmax X))) nc)"
  have sD: "shape2 D (b * nd) nc"
    using sX nc D_def by (rule smoothed_rows)
  obtain sm s2 where sm: "STMNsampler B D s1 = (Inr sm, s2)" and ssm: "shape2 sm (b * nd) nc"
    using contract_STMNsampler [OF c nc sD, of s1] by blast
  have bk: "0 \<le> nc" "0 \<le> b" "0 \<le> nd * nc" "b * (nd * nc) = b * nd * nc"
    using nd nc b0 by simp_all
  obtain sample where sample: "view2 b (nd * nc) sm = Inr sample"
    and ssample: "shape2 sample b (nd * nc)"
    using view2_shape [OF ssm bk] by blast
  obtain ds where ds: "view2 b (nd * nc) D = Inr ds" and sds: "shape2 ds b (nd * nc)"
    using view2_shape [OF sD bk] by blast
  have "encode x m = (Inr (sample, ds), init B h w nd nc s2)"
    unfolding m encode_def Let_def
    by (simp add: and_then_def with_self_def of_result_def returns_def call_module_def
        init_fields init_update b xp y X sm [unfolded D_def, simplified]
        sample ds [unfolded D_def, simplified])
  then show ?thesis using ssample sds by blast
qed

lemma decode_shape:
  assumes c: "shape_contract B" and h: "0 < h" and w: "0 < w" and nd: "0 < nd" and nc: "0 < nc"
    and m: "m = init B h w nd nc s"
    and z: "shape2 z b (nd * nc)"
  shows "\<exists>y s'. decode z m = (Inr y, init B h w nd nc s') \<and> shape4 y b 1 h w"
proof -
  obtain y s1 where y: "decoder (init B h w nd nc s) z s = (Inr y, s1)"
    and sy: "shape4 y b 1 (padded_height m) (padded_width m)"
    using decoder_shape [OF c h w nd nc m z, of s] unfolding m by blast
  define m1 where "m1 = init B h w nd nc s1"
  have "padded_height m1 = padded_height m" "padded_width m1 = padded_width m"
    unfolding m m1_def by (simp_all only: init_padded)
  then have "shape4 y b 1 (padded_height m1) (padded_width m1)"
    using sy by simp
  then obtain v where v: "unpad_output y m1 = (Inr v, m1)" and sv: "shape4 v b 1 h w"
    using unpad_output_shape [OF m1_def, of y b 1] h w by auto
  have "decode z m = (Inr v, init B h w nd nc s1)"
    unfolding m decode_def
    by (simp add: and_then_def returns_def call_module_def init_fields init_update y
        v [unfolded m1_def])
  then show ?thesis using sv by blast
qed

lemma forward_shape:
  assumes c: "shape_contract B" and h: "0 < h" and w: "0 < w" and nd: "0 < nd" and nc: "0 < nc"
    and m: "m = init B h w nd nc s"
    and x: "shape4 x b 1 h w"
  shows "\<exists>y sample ds m'. forward x m = (Inr (y, sample, ds), m') \<and>
           shape4 y b 1 h w \<and> shape2 sample b (nd * nc) \<and> shape2 ds b (nd * nc)"
proof -
  obtain sample ds s1 where e: "encode x m = (Inr (sample, ds), init B h w nd nc s1)"
    and ss: "shape2 sample b (nd * nc)" and sd: "shape2 ds b (nd * nc)"
    using encode_shape [OF c h w nd nc m x] by blast
  obtain y s2 where d: "decode sample (init B h w nd nc s1) = (Inr y, init B h w nd nc s2)"
    and sy: "shape4 y b 1 h w"
    using decode_shape [OF c h w nd nc refl ss] by blast
  have "forward x m = (Inr (y, sample, ds), init B h w nd nc s2)"
    unfolding forward_def by (simp add: and_then_def returns_def e d)
  then show ?thesis using sy ss sd by blast
qed

lemma zero_blocks_contract: "shape_contract zero_blocks"
  unfolding shape_contract_def
proof (intro conjI allI impI)
  fix cin cout b h w :: int and x :: tensor4 and s :: unit
  assume a: "0 < cin \<and> 0 < cout \<and> 0 < h \<and> 0 < w \<and> shape4 x b cin h w"
  have "shape4 (map (\<lambda>xc. replicate (nat cout)
      (case xc of [] \<Rightarrow> [] | img # _ \<Rightarrow> map (map (\<lambda>v. 0)) img)) x) b cout h w"
    using a unfolding shape4_iff by (auto split: list.splits)
  then show "\<exists>y s'. CNNLayer zero_blocks cin cout 3 x s = (Inr y, s') \<and> shape4 y b cout h w"
    by (simp add: zero_blocks_def returns_def)
next
  fix cin cout k b h w :: int and x :: tensor4 and s :: unit
  assume a: "0 < cin \<and> 0 < cout \<and> 0 < k \<and> 0 < h \<and> 0 < w \<and> shape4 x b cin h w"
  let ?f = "\<lambda>xc :: real list list list. replicate (nat cout)
      (case xc of [] \<Rightarrow> []
       | img # _ \<Rightarrow> replicate (nat (int (length img) * k))
                      (replicate (nat (width img * k)) (0 :: real)))"
  have f: "?f xc = replicate (nat cout) (replicate (nat (h * k)) (replicate (nat (w * k)) 0))"
    if xc: "xc \<in> set x" for xc
  proof -
    have lxc: "int (length xc) = cin"
      and imgs: "\<forall>img\<in>set xc. int (length img) = h \<and> (\<forall>row\<in>set img. int (length row) = w)"
      using a xc by (auto simp: shape4_iff)
    from lxc a obtain img rest where cons: "xc = img # rest" by (cases xc) auto
    have li: "int (length img) = h" and ri: "\<forall>row\<in>set img. int (length row) = w"
      using imgs cons by auto
    have wi: "width img = w" using li _ ri by (rule width_shape) (use a in simp)
    show ?thesis unfolding cons by (simp add: li wi)
  qed
  have eq: "map ?f x = map (\<lambda>xc. replicate (nat cout)
      (replicate (nat (h * k)) (replicate (nat (w * k)) 0))) x"
    using f by (intro map_cong refl)
  have "shape4 (map (\<lambda>xc. replicate (nat cout)
      (replicate (nat (h * k)) (replicate (nat (w * k)) (0 :: real)))) x) b cout (h * k) (w * k)"
    using a by (auto simp: shape4_iff)
  then have "shape4 (map ?f x) b cout (h * k) (w * k)"
    by (simp only: eq)
  then show "\<exists>y s'. DeCNNLayer zero_blocks cin cout k k 0 x s = (Inr y, s') \<and>
      shape4 y b cout (h * k) (w * k)"
    by (simp add: zero_blocks_def returns_def)
next
  fix depth din dh dout b :: int and x :: tensor2 and s :: unit
  assume a: "0 < din \<and> 0 < dout \<and> shape2 x b din"
  then have "shape2 (map (\<lambda>v. replicate (nat dout) 0) x) b dout"
    by (simp add: shape2_iff)
  then show "\<exists>y s'. MLP zero_blocks depth din dh dout x s = (Inr y, s') \<and> shape2 y b dout"
    by (simp add: zero_blocks_def returns_def)
next
  fix r c :: int and x :: tensor2 and s :: unit
  assume a: "0 < c \<and> shape2 x r c"
  then have "shape2 (map (\<lambda>row. case row of [] \<Rightarrow> [] | p # ps \<Rightarrow> 1 # map (\<lambda>v. 0) ps) x) r c"
    by (auto simp: shape2_iff split: list.splits)
  then show "\<exists>y s'. STMNsampler zero_blocks x s = (Inr y, s') \<and> shape2 y r c"
    by (simp add: zero_blocks_def returns_def)
qed

subsection \<open>Decoding what was encoded\<close>

text \<open>
  Claim C5. Let the blocks keep the contract on shapes, and let the model be built for
  positive sizes \<open>h\<close> and \<open>w\<close> (up to \<open>2 ^ 53\<close>, where \<open>init\<close> is the constructor)
  and positive numbers of distributions and of categories. Then on every image \<open>x\<close> of
  shape \<open>(b, 1, h, w)\<close>, \<open>encode\<close> returns a sample and a distribution, \<open>decode\<close> of
  the sample (on the model as \<open>encode\<close> left it) returns, and what it returns has the
  shape \<open>(b, 1, h, w)\<close> of the image.
\<close>

theorem decode_encode_shape:
  assumes "shape_contract B" and "0 < h" and "h \<le> 2 ^ 53" and "0 < w" and "w \<le> 2 ^ 53"
    and "0 < nd" and "0 < nc" and "m = init B h w nd nc s" and "shape4 x b 1 h w"
  shows "\<exists>sample distributions m1 y m2.
           encode x m = (Inr (sample, distributions), m1) \<and>
           decode sample m1 = (Inr y, m2) \<and> shape4 y b 1 h w"
proof -
  obtain sample ds s1 where e: "encode x m = (Inr (sample, ds), init B h w nd nc s1)"
    and ss: "shape2 sample b (nd * nc)"
    using encode_shape [OF assms(1,2,4,6,7,8,9)] by blast
  obtain y s2 where "decode sample (init B h w nd nc s1) = (Inr y, init B h w nd nc s2)"
    and "shape4 y b 1 h w"
    using decode_shape [OF assms(1,2,4,6,7) refl ss] by blast
  then show ?thesis using e by blast
qed

theorem decode_encode_shape_witness:
  "\<exists>sample distributions m1 y m2.
     encode [[[[1, 2, 3], [4, 5, 6]]]] (init zero_blocks 2 3 4 8 ()) =
       (Inr (sample, distributions), m1) \<and>
     decode sample m1 = (Inr y, m2) \<and> shape4 y 1 1 2 3"
proof -
  have s: "shape4 [[[[1, 2, 3], [4, 5, 6]]]] 1 1 2 3"
    by (simp add: shape4_def)
  show ?thesis
    using decode_encode_shape [OF zero_blocks_contract _ _ _ _ _ _ refl s, of 4 8 "()"]
    by simp
qed

subsection \<open>The example of the spec\<close>

text \<open>
  Claim C7. The model built with \<open>image_height = 100\<close>, \<open>image_width = 130\<close>,
  \<open>n_distributions = 4\<close> and \<open>n_categories = 8\<close> has \<open>padded_height = 128\<close>,
  \<open>padded_width = 192\<close>, \<open>pad_top = pad_bottom = 14\<close>, \<open>pad_left = pad_right = 31\<close>,
  \<open>post_cnn_height = 2\<close> and \<open>post_cnn_width = 3\<close>; and, the blocks keeping the contract
  on shapes, \<open>forward\<close> on an image of shape \<open>(2, 1, 100, 130)\<close> returns a
  reconstruction of shape \<open>(2, 1, 100, 130)\<close>, a sample of shape \<open>(2, 32)\<close> and a
  distribution of shape \<open>(2, 32)\<close>.
\<close>

theorem example_100_130:
  assumes "shape_contract B" and "m = init B 100 130 4 8 s" and "shape4 x 2 1 100 130"
  shows "padded_height m = 128 \<and> padded_width m = 192 \<and>
         pad_top m = 14 \<and> pad_bottom m = 14 \<and> pad_left m = 31 \<and> pad_right m = 31 \<and>
         post_cnn_height m = 2 \<and> post_cnn_width m = 3 \<and>
         (\<exists>reconstruction sample distribution m'.
            forward x m = (Inr (reconstruction, sample, distribution), m') \<and>
            shape4 reconstruction 2 1 100 130 \<and> shape2 sample 2 32 \<and>
            shape2 distribution 2 32)"
proof -
  have plan: "padded_height m = 128 \<and> padded_width m = 192 \<and>
         pad_top m = 14 \<and> pad_bottom m = 14 \<and> pad_left m = 31 \<and> pad_right m = 31 \<and>
         post_cnn_height m = 2 \<and> post_cnn_width m = 3"
    unfolding assms(2) by (simp add: init_pads init_padded)
  have "\<exists>y sample ds m'. forward x m = (Inr (y, sample, ds), m') \<and>
           shape4 y 2 1 100 130 \<and> shape2 sample 2 (4 * 8) \<and> shape2 ds 2 (4 * 8)"
    using assms by (intro forward_shape) simp_all
  then show ?thesis using plan by simp
qed

theorem example_100_130_witness:
  "padded_height (init zero_blocks 100 130 4 8 ()) = 128 \<and>
   pad_left (init zero_blocks 100 130 4 8 ()) = 31 \<and>
   (\<exists>reconstruction sample distribution m'.
      forward (replicate 2 [replicate 100 (replicate 130 0)]) (init zero_blocks 100 130 4 8 ()) =
        (Inr (reconstruction, sample, distribution), m') \<and>
      shape4 reconstruction 2 1 100 130 \<and> shape2 sample 2 32 \<and> shape2 distribution 2 32)"
proof -
  have s: "shape4 (replicate 2 [replicate 100 (replicate 130 0)]) 2 1 100 130"
    by (simp add: shape4_iff)
  show ?thesis
    using example_100_130 [OF zero_blocks_contract refl s, of "()"]
    by simp
qed

section \<open>The smoothed distribution that \<open>encode\<close> returns\<close>

text \<open>
  When \<open>encode\<close> returns, each of its steps has returned. The logits are what the view
  of the encoder's output as \<open>(batch * n_distributions, n_categories)\<close> returned, and the
  distribution returned is the view as \<open>(batch, n_distributions * n_categories)\<close> of
  their softmax, smoothed; viewing it again as \<open>(batch * n_distributions, n_categories)\<close>
  gives back the rows, one for each categorical distribution. Nothing is asked of the
  blocks here: the statements hold for every encoder and sampler.
\<close>

lemma and_then_InrE:
  assumes "and_then f g s = (Inr r, s')"
  obtains a s1 where "f s = (Inr a, s1)" and "g a s1 = (Inr r, s')"
proof -
  obtain q s1 where fs: "f s = (q, s1)" by (cases "f s")
  show ?thesis
  proof (cases q)
    case (Inl e)
    then show ?thesis using assms fs by (simp add: and_then_def)
  next
    case (Inr a)
    then show ?thesis using assms fs that by (simp add: and_then_def)
  qed
qed

lemma view2_result_shape:
  assumes "view2 r c x = Inr y"
  shows "shape2 y r c"
proof -
  from assms have r: "0 \<le> r" "0 \<le> c" "r * c = int (length (concat x))"
    and y: "y = map (\<lambda>i. take (nat c) (drop (i * nat c) (concat x))) [0..<nat r]"
    by (auto simp: view2_def Let_def split: if_splits)
  have "int (length (concat x)) = int (nat r * nat c)"
    using r by simp
  then have len: "length (concat x) = nat r * nat c"
    by (simp only: of_nat_eq_iff)
  show ?thesis
    unfolding shape2_iff
  proof (rule conjI)
    show "int (length y) = r" using r(1) by (simp add: y)
    show "\<forall>row\<in>set y. int (length row) = c"
    proof
      fix row assume "row \<in> set y"
      then obtain i where i: "i < nat r" "row = take (nat c) (drop (i * nat c) (concat x))"
        unfolding y by auto
      have "length row = nat c"
        unfolding i(2) using i(1) len by (rule length_chunk)
      then show "int (length row) = c" using r(2) by simp
    qed
  qed
qed







section \<open>The sample that \<open>encode\<close> returns\<close>

text \<open>
  With the sampler as the spec gives it. The hot index of a row is inside the row; on
  a row of probabilities it is \<open>i\<close> exactly when the number drawn lies in the interval
  from the sum of the entries before \<open>i\<close> to that sum with entry \<open>i\<close> added, an
  interval whose length is entry \<open>i\<close>; and the value of the straight-through sum is
  the one-hot vector itself.
\<close>

lemma hot_index_less: "row \<noteq> [] \<Longrightarrow> hot_index u row < length row"
  by (induction u row rule: hot_index.induct) simp_all

lemma sum_take_nonneg:
  "\<forall>p\<in>set row. 0 \<le> p \<Longrightarrow> 0 \<le> sum_list (take i (row :: real list))"
  by (rule sum_list_nonneg) (auto dest: in_set_takeD)

lemma hot_index_interval:
  assumes "\<forall>p\<in>set row. 0 \<le> p" and "0 \<le> u" and "u < sum_list row" and "i < length row"
  shows "hot_index u row = i \<longleftrightarrow>
           sum_list (take i row) \<le> u \<and> u < sum_list (take i row) + row ! i"
  using assms
proof (induction u row arbitrary: i rule: hot_index.induct)
  case (1 u)
  then show ?case by simp
next
  case (2 u p)
  then show ?case by simp
next
  case (3 u p q ps)
  show ?case
  proof (cases i)
    case 0
    then show ?thesis using "3.prems" by auto
  next
    case (Suc j)
    have nn: "0 \<le> sum_list (take j (q # ps))"
      using "3.prems"(1) by (intro sum_take_nonneg) simp
    show ?thesis
    proof (cases "u < p")
      case True
      then show ?thesis using Suc nn by simp
    next
      case False
      have "hot_index (u - p) (q # ps) = j \<longleftrightarrow>
          sum_list (take j (q # ps)) \<le> u - p \<and>
          u - p < sum_list (take j (q # ps)) + (q # ps) ! j"
        using "3.prems" False Suc by (intro "3.IH") auto
      then show ?thesis using False Suc by auto
    qed
  qed
qed

lemma straight_through_value:
  "length probs = n \<Longrightarrow> straight_through (one_hot n i) probs = one_hot n i"
proof -
  assume l: "length probs = n"
  have "map2 (\<lambda>a p. a + p - p) hard probs = hard" if "length hard = length probs"
    for hard :: "real list"
    using that by (induction hard probs rule: list_induct2) simp_all
  then show ?thesis using l by (simp add: straight_through_def one_hot_def)
qed

lemma sample_rows_value:
  "fst (sample_rows rand x s) =
     map2 (\<lambda>u row. one_hot (length row) (hot_index u row)) (draws rand (length x) s) x"
proof (induction x arbitrary: s)
  case Nil
  then show ?case by simp
next
  case (Cons row rows)
  obtain u s1 where r: "rand s = (u, s1)" by (cases "rand s")
  obtain ys s2 where ys: "sample_rows rand rows s1 = (ys, s2)" by (cases "sample_rows rand rows s1")
  have "ys = map2 (\<lambda>u row. one_hot (length row) (hot_index u row))
      (draws rand (length rows) s1) rows"
    using Cons [of s1] ys by simp
  then show ?case by (simp add: r ys straight_through_value)
qed

lemma length_draws: "length (draws rand n s) = n"
  by (induction n arbitrary: s) (simp_all split: prod.splits)

lemma encode_steps_sample:
  assumes "encode x m = (Inr (sample, ds), m')"
  shows "\<exists>xp m1 y m2 X sm.
           pad_input x m = (Inr xp, m1) \<and> call_module encoder xp m1 = (Inr y, m2) \<and>
           view2 (int (length x) * n_distributions m2) (n_categories m2) y = Inr X \<and>
           call_module sampler
             (tensor_add (scalar_mul 0.99 (softmax_act m2 X))
                (scalar_div (scalar_mul 0.01 (ones_like (softmax_act m2 X))) (n_categories m2)))
             m2 = (Inr sm, m') \<and>
           view2 (int (length x)) (n_distributions m' * n_categories m') sm = Inr sample \<and>
           view2 (int (length x)) (n_distributions m' * n_categories m')
             (tensor_add (scalar_mul 0.99 (softmax_act m2 X))
                (scalar_div (scalar_mul 0.01 (ones_like (softmax_act m2 X))) (n_categories m2)))
             = Inr ds"
  using assms unfolding encode_def Let_def
  apply (elim and_then_InrE)
  apply (auto simp: with_self_def of_result_def returns_def)
  done

lemma sample_rows_shape:
  assumes "shape2 x r c"
  shows "shape2 (fst (sample_rows rand x s)) r c"
proof -
  have "length (draws rand (length x) s) = length x" by (rule length_draws)
  then show ?thesis
    using assms unfolding sample_rows_value shape2_iff
    by (auto simp: one_hot_def dest!: set_zip_rightD)
qed

lemma contract_with_sampler:
  assumes "shape_contract B"
  shows "shape_contract (B\<lparr>STMNsampler := STMN_forward rand\<rparr>)"
proof -
  have "\<exists>y s'. STMN_forward rand x s = (Inr y, s') \<and> shape2 y r c" if "shape2 x r c"
    for x r c s
  proof -
    obtain y s' where y: "sample_rows rand x s = (y, s')" by (cases "sample_rows rand x s")
    have "shape2 (fst (sample_rows rand x s)) r c" using that by (rule sample_rows_shape)
    then show ?thesis by (simp add: STMN_forward_def y)
  qed
  then show ?thesis
    using assms unfolding shape_contract_def by simp
qed

lemma encode_sample_rows:
  assumes B: "STMNsampler B = STMN_forward rand" and nc: "0 < nc"
    and m: "m = init B h w nd nc s"
    and e: "encode x m = (Inr (sample, ds), m')"
  shows "\<exists>D w0. view2 (int (length x) * nd) nc ds = Inr D \<and>
           shape2 D (int (length x) * nd) nc \<and>
           (\<forall>row\<in>set D. sum_list row = 1 \<and> (\<forall>p\<in>set row. 0 \<le> p)) \<and>
           view2 (int (length x) * nd) nc sample =
             Inr (map2 (\<lambda>u row. one_hot (length row) (hot_index u row))
                    (draws rand (length D) w0) D)"
proof -
  from encode_steps_sample [OF e] obtain xp m1 y m2 X sm where
    p: "pad_input x m = (Inr xp, m1)" and c: "call_module encoder xp m1 = (Inr y, m2)"
    and X: "view2 (int (length x) * n_distributions m2) (n_categories m2) y = Inr X"
    and sm: "call_module sampler
             (tensor_add (scalar_mul 0.99 (softmax_act m2 X))
                (scalar_div (scalar_mul 0.01 (ones_like (softmax_act m2 X))) (n_categories m2)))
             m2 = (Inr sm, m')"
    and vs: "view2 (int (length x)) (n_distributions m' * n_categories m') sm = Inr sample"
    and v: "view2 (int (length x)) (n_distributions m' * n_categories m')
             (tensor_add (scalar_mul 0.99 (softmax_act m2 X))
                (scalar_div (scalar_mul 0.01 (ones_like (softmax_act m2 X))) (n_categories m2)))
             = Inr ds"
    by blast
  obtain w1 where "m1 = m\<lparr>modules_state := w1\<rparr>"
    using pad_input_frame [of x m] p by auto
  then have m1: "m1 = init B h w nd nc w1"
    by (simp add: m init_update)
  obtain w2 where "m2 = m1\<lparr>modules_state := w2\<rparr>"
    using call_module_frame [of encoder xp m1] c by auto
  then have m2: "m2 = init B h w nd nc w2"
    by (simp add: m1 init_update)
  obtain w3 where "m' = m\<lparr>modules_state := w3\<rparr>"
    using encode_frame [of x m] e by auto
  then have m3: "m' = init B h w nd nc w3"
    by (simp add: m init_update)
  define D where "D = tensor_add (scalar_mul 0.99 (Softmax X))
               (scalar_div (scalar_mul 0.01 (ones_like (Softmax X))) nc)"
  have "view2 (int (length x) * nd) nc y = Inr X"
    using X by (simp add: m2 init_fields)
  then have sX: "shape2 X (int (length x) * nd) nc"
    by (rule view2_result_shape)
  have sD: "shape2 D (int (length x) * nd) nc"
    using sX nc D_def by (rule smoothed_rows)
  have r0: "\<forall>row\<in>set D. sum_list row = 1 \<and>
           (\<forall>p\<in>set row. 0.01 / of_int nc \<le> p \<and> p \<le> 0.99 + 0.01 / of_int nc)"
    using sX nc D_def by (rule smoothed_rows)
  have e0: "(0 :: real) \<le> 0.01 / of_int nc" using nc by simp
  have rows: "\<forall>row\<in>set D. sum_list row = 1 \<and> (\<forall>p\<in>set row. 0 \<le> p)"
  proof (intro ballI conjI)
    fix row assume "row \<in> set D"
    then show "sum_list row = 1" using r0 by blast
  next
    fix row p assume "row \<in> set D" and "p \<in> set row"
    then have "0.01 / of_int nc \<le> p" using r0 by blast
    then show "0 \<le> p" using e0 by (rule order_trans [rotated])
  qed
  have vD: "view2 (int (length x)) (nd * nc) D = Inr ds"
    using v unfolding D_def by (simp add: m2 m3 init_fields)
  have back_D: "view2 (int (length x) * nd) nc ds = Inr D"
    using sD _ vD by (rule view2_back) (use nc in simp)
  have "call_module sampler D m2 = (Inr sm, m')"
    using sm unfolding D_def by (simp add: m2 init_fields)
  moreover obtain ys s' where ys: "sample_rows rand D w2 = (ys, s')"
    by (cases "sample_rows rand D w2")
  ultimately have sm_fst: "sm = fst (sample_rows rand D w2)"
    by (simp add: call_module_def m2 init_fields B STMN_forward_def)
  then have sm_eq: "sm = map2 (\<lambda>u row. one_hot (length row) (hot_index u row))
      (draws rand (length D) w2) D"
    by (simp only: sample_rows_value)
  have "shape2 (fst (sample_rows rand D w2)) (int (length x) * nd) nc"
    using sD by (rule sample_rows_shape)
  then have ssm: "shape2 sm (int (length x) * nd) nc"
    by (simp only: sm_fst)
  have "view2 (int (length x)) (nd * nc) sm = Inr sample"
    using vs by (simp add: m3 init_fields)
  then have back_S: "view2 (int (length x) * nd) nc sample = Inr sm"
    using ssm _ by (rule view2_back [rotated 2]) (use nc in simp)
  show ?thesis
  proof (intro exI conjI)
    show "view2 (int (length x) * nd) nc ds = Inr D" by (rule back_D)
    show "shape2 D (int (length x) * nd) nc" by (rule sD)
    show "\<forall>row\<in>set D. sum_list row = 1 \<and> (\<forall>p\<in>set row. 0 \<le> p)" by (rule rows)
    show "view2 (int (length x) * nd) nc sample =
        Inr (map2 (\<lambda>u row. one_hot (length row) (hot_index u row))
               (draws rand (length D) w2) D)"
      using back_S by (simp only: sm_eq)
  qed
qed

lemma one_hot_nth: "j < n \<Longrightarrow> one_hot n i ! j = (if j = i then 1 else 0)"
  by (simp add: one_hot_def)

lemma length_one_hot: "length (one_hot n i) = n"
  by (simp add: one_hot_def)

text \<open>
  Claim C6. Let the sampler of the model be the one the spec describes, on a generator
  \<open>rand\<close>, and the number of categories be positive. Whenever \<open>encode\<close> returns, the
  sample and the distribution it returns, each seen as the
  \<open>(batch * n_distributions, n_categories)\<close> array, have as many rows, and there is a
  state of the generator from which the draws were made such that, for every row \<open>k\<close>:
  the row of the sample has \<open>n_categories\<close> entries, the entry at the hot index is 1
  and every other entry is 0, the hot index being that of the \<open>k\<close>-th draw on row \<open>k\<close>
  of the distribution; and a number \<open>u\<close> of \<open>[0, 1)\<close> gives the hot index \<open>i\<close>
  exactly when it lies in an interval of length the \<open>i\<close>-th probability of the row
  (so that, the draw being uniform, index \<open>i\<close> is hot with that probability).
\<close>

theorem sample_rows_one_hot:
  assumes "STMNsampler B = STMN_forward rand" and "0 < nc" and "m = init B h w nd nc s"
    and "encode x m = (Inr (sample, distributions), m')"
  shows "\<exists>S D w0.
           view2 (int (length x) * nd) nc sample = Inr S \<and>
           view2 (int (length x) * nd) nc distributions = Inr D \<and>
           length S = length D \<and>
           (\<forall>k<length D.
              length (S ! k) = nat nc \<and>
              hot_index (draws rand (length D) w0 ! k) (D ! k) < nat nc \<and>
              (\<forall>j<nat nc. S ! k ! j =
                 (if j = hot_index (draws rand (length D) w0 ! k) (D ! k) then 1 else 0)) \<and>
              (\<forall>u i. 0 \<le> u \<and> u < 1 \<and> i < nat nc \<longrightarrow>
                 (hot_index u (D ! k) = i \<longleftrightarrow>
                    sum_list (take i (D ! k)) \<le> u \<and>
                    u < sum_list (take i (D ! k)) + D ! k ! i)))"
proof -
  obtain D w0 where vD: "view2 (int (length x) * nd) nc distributions = Inr D"
    and sD: "shape2 D (int (length x) * nd) nc"
    and rows: "\<forall>row\<in>set D. sum_list row = 1 \<and> (\<forall>p\<in>set row. 0 \<le> p)"
    and vS: "view2 (int (length x) * nd) nc sample =
             Inr (map2 (\<lambda>u row. one_hot (length row) (hot_index u row))
                    (draws rand (length D) w0) D)"
    using encode_sample_rows [OF assms] by blast
  define us where "us = draws rand (length D) w0"
  define S where "S = map2 (\<lambda>u row. one_hot (length row) (hot_index u row)) us D"
  have lus: "length us = length D"
    unfolding us_def by (rule length_draws)
  have lS: "length S = length D"
    unfolding S_def using lus by simp
  have row_k: "length (S ! k) = nat nc \<and>
              hot_index (us ! k) (D ! k) < nat nc \<and>
              (\<forall>j<nat nc. S ! k ! j = (if j = hot_index (us ! k) (D ! k) then 1 else 0)) \<and>
              (\<forall>u i. 0 \<le> u \<and> u < 1 \<and> i < nat nc \<longrightarrow>
                 (hot_index u (D ! k) = i \<longleftrightarrow>
                    sum_list (take i (D ! k)) \<le> u \<and>
                    u < sum_list (take i (D ! k)) + D ! k ! i))"
    if k: "k < length D" for k
  proof -
    have mem: "D ! k \<in> set D" using k by simp
    then have len: "length (D ! k) = nat nc"
      using sD by (auto simp: shape2_iff)
    then have ne: "D ! k \<noteq> []" using assms(2) by auto
    have sum: "sum_list (D ! k) = 1" and nn: "\<forall>p\<in>set (D ! k). 0 \<le> p"
      using rows mem by blast+
    have Sk: "S ! k = one_hot (nat nc) (hot_index (us ! k) (D ! k))"
      unfolding S_def using k lus by (simp add: len)
    have a: "length (S ! k) = nat nc"
      unfolding Sk by (rule length_one_hot)
    have b: "hot_index (us ! k) (D ! k) < nat nc"
      using hot_index_less [OF ne, of "us ! k"] len by simp
    have c: "\<forall>j<nat nc. S ! k ! j = (if j = hot_index (us ! k) (D ! k) then 1 else 0)"
      unfolding Sk by (simp add: one_hot_nth)
    have d: "hot_index u (D ! k) = i \<longleftrightarrow>
               sum_list (take i (D ! k)) \<le> u \<and> u < sum_list (take i (D ! k)) + D ! k ! i"
      if "0 \<le> u \<and> u < 1 \<and> i < nat nc" for u i
      using nn _ _ _ by (rule hot_index_interval) (use that sum len in simp_all)
    show ?thesis using a b c d by blast
  qed
  show ?thesis
  proof (rule exI [of _ S], rule exI [of _ D], rule exI [of _ w0], intro conjI)
    show "view2 (int (length x) * nd) nc sample = Inr S"
      using vS by (simp only: S_def us_def)
    show "view2 (int (length x) * nd) nc distributions = Inr D" by (rule vD)
    show "length S = length D" by (rule lS)
    show "\<forall>k<length D.
              length (S ! k) = nat nc \<and>
              hot_index (draws rand (length D) w0 ! k) (D ! k) < nat nc \<and>
              (\<forall>j<nat nc. S ! k ! j =
                 (if j = hot_index (draws rand (length D) w0 ! k) (D ! k) then 1 else 0)) \<and>
              (\<forall>u i. 0 \<le> u \<and> u < 1 \<and> i < nat nc \<longrightarrow>
                 (hot_index u (D ! k) = i \<longleftrightarrow>
                    sum_list (take i (D ! k)) \<le> u \<and>
                    u < sum_list (take i (D ! k)) + D ! k ! i))"
      using row_k unfolding us_def by (intro allI impI)
  qed
qed

theorem sample_rows_one_hot_witness:
  "\<exists>sample distributions m' S D.
     encode [[[[1, 2, 3], [4, 5, 6]]]]
       (init (zero_blocks\<lparr>STMNsampler := STMN_forward (\<lambda>s. (1 / 2, s))\<rparr>) 2 3 4 8 ()) =
       (Inr (sample, distributions), m') \<and>
     view2 (1 * 4) 8 sample = Inr S \<and> view2 (1 * 4) 8 distributions = Inr D \<and>
     length S = length D"
proof -
  have s: "shape4 [[[[1, 2, 3], [4, 5, 6]]]] 1 1 2 3"
    by (simp add: shape4_def)
  have c: "shape_contract (zero_blocks\<lparr>STMNsampler := STMN_forward (\<lambda>s. (1 / 2, s))\<rparr>)"
    using zero_blocks_contract by (rule contract_with_sampler)
  obtain sample ds s' where
    e: "encode [[[[1, 2, 3], [4, 5, 6]]]]
          (init (zero_blocks\<lparr>STMNsampler := STMN_forward (\<lambda>s. (1 / 2, s))\<rparr>) 2 3 4 8 ()) =
          (Inr (sample, ds),
           init (zero_blocks\<lparr>STMNsampler := STMN_forward (\<lambda>s. (1 / 2, s))\<rparr>) 2 3 4 8 s')"
    using encode_shape [OF c _ _ _ _ refl s, of 4 8 "()"] by auto
  have b: "STMNsampler (zero_blocks\<lparr>STMNsampler := STMN_forward (\<lambda>s. (1 / 2, s))\<rparr>) =
      STMN_forward (\<lambda>s. (1 / 2, s))"
    by simp
  show ?thesis
    using sample_rows_one_hot [OF b _ refl e] e by auto
qed

end
